(* ===== verification/Prelude.thy ===== *)
theory Prelude
  imports Main "HOL-Library.Word"
begin

text \<open>
  Shared vocabulary of the unitdb development: the machine types of the Go
  sources as words, the little-endian codec of \<open>encoding/binary\<close>
  (\<open>PutUint16/32/64\<close> and \<open>Uint16/32/64\<close>), Go slice expressions that panic
  out of range, and the length-prefixed record frame that the WAL writer, the
  WAL reader, the memdb block and the tiny-batch buffer all share.  The
  collection \<open>codec_simps\<close> gathers the round-trip and length facts of the
  codecs, so that component proofs can use them with \<open>simp add: codec_simps\<close>.
\<close>

unbundle bit_operations_syntax

named_theorems codec_simps "round-trip and length facts of the byte codecs"

type_synonym byte = "8 word"
type_synonym u16 = "16 word"
type_synonym u32 = "32 word"
type_synonym u64 = "64 word"
type_synonym i64 = "64 word" \<comment> \<open>Go \<open>int64\<close>: the same bits, read with \<open>sint\<close>\<close>

subsection \<open>Little-endian words\<close>

text \<open>
  \<open>le_enc n w\<close> is \<open>binary.LittleEndian.PutUintN\<close> for an \<open>n\<close>-byte
  field: the lowest byte first.  \<open>le_dec\<close> is \<open>binary.LittleEndian.UintN\<close>
  on a slice of exactly that many bytes.
\<close>

fun le_enc :: "nat \<Rightarrow> 'a::len word \<Rightarrow> byte list" where
  "le_enc 0 w = []"
| "le_enc (Suc n) w = ucast w # le_enc n (drop_bit 8 w)"

fun le_dec :: "byte list \<Rightarrow> 'a::len word" where
  "le_dec [] = 0"
| "le_dec (b # bs) = ucast b OR push_bit 8 (le_dec bs)"

text \<open>Go's \<open>s[lo:hi]\<close>: a panic (here \<open>None\<close>) unless \<open>lo \<le> hi \<le> len(s)\<close>.\<close>

definition go_slice :: "'a list \<Rightarrow> nat \<Rightarrow> nat \<Rightarrow> 'a list option" where
  "go_slice xs lo hi = (if lo \<le> hi \<and> hi \<le> length xs then Some (take (hi - lo) (drop lo xs)) else None)"

text \<open>
  A length-prefixed frame \<open>| u32 dataLen LE | bytes |\<close>, where \<open>dataLen\<close>
  counts the four bytes of the prefix too (WAL \<open>Append\<close>, the tiny-batch
  buffer, \<open>memdb.DB.Set\<close>).
\<close>

definition frame :: "byte list \<Rightarrow> byte list" where
  "frame p = le_enc 4 (word_of_nat (length p + 4) :: u32) @ p"

text \<open>
  Go errors as values: a runtime panic (an out-of-range slice, a nil
  dereference, an explicit \<open>panic\<close>), a failed operating-system call, or an
  \<open>errors.New\<close> value with its message.
\<close>

datatype go_error = Panic string | IOError | GoErr string

text \<open>
  The error values of the \<open>unitdb\<close> package (\<open>errors.go\<close>), each an
  \<open>errors.New\<close> with its message.
\<close>

datatype db_error =
    ErrTopicEmpty | ErrMsgIdEmpty | ErrMsgIdDeleted | ErrMsgIdDoesNotExist
  | ErrMsgIdPrefixMismatch | ErrTtlTooLarge | ErrTopicTooLarge | ErrMsgExpired
  | ErrValueEmpty | ErrValueTooLarge | ErrEntryInvalid | ErrImmutable | ErrFull
  | ErrCorrupted | ErrLocked | ErrClosed | ErrBatchSeqComplete | ErrWriteConflict
  | ErrBadRequest | ErrForbidden

fun err_msg :: "db_error \<Rightarrow> string" where
  "err_msg ErrTopicEmpty = ''Topic is empty''"
| "err_msg ErrMsgIdEmpty = ''Message Id is empty''"
| "err_msg ErrMsgIdDeleted = ''Message Id is deleted''"
| "err_msg ErrMsgIdDoesNotExist = ''Message Id does not exist in database''"
| "err_msg ErrMsgIdPrefixMismatch = ''Message Id does not match topic or Contract''"
| "err_msg ErrTtlTooLarge = ''TTL is too large''"
| "err_msg ErrTopicTooLarge = ''Topic is too large''"
| "err_msg ErrMsgExpired = ''Message has expired''"
| "err_msg ErrValueEmpty = ''Payload is empty''"
| "err_msg ErrValueTooLarge = ''value is too large''"
| "err_msg ErrEntryInvalid = ''entry is invalid''"
| "err_msg ErrImmutable = ''database is immutable''"
| "err_msg ErrFull = ''database is full''"
| "err_msg ErrCorrupted = ''database is corrupted''"
| "err_msg ErrLocked = ''database is locked''"
| "err_msg ErrClosed = ''database is closed''"
| "err_msg ErrBatchSeqComplete = ''batch seq is complete''"
| "err_msg ErrWriteConflict = ''batch write conflict''"
| "err_msg ErrBadRequest = ''The request was invalid or cannot be otherwise served''"
| "err_msg ErrForbidden = ''The request is understood, but it has been refused or access is not allowed''"

definition dberr :: "db_error \<Rightarrow> go_error" where
  "dberr e = GoErr (err_msg e)"

subsection \<open>Int64 arithmetic without overflow\<close>

text \<open>
  Offsets are Go \<open>int64\<close> and sizes \<open>uint32\<close>; \<open>off + int64(size)\<close> is the
  wrapping sum of \<open>off\<close> and the zero-extended size.  While the sum stays below
  \<open>2^63\<close> it is the integer sum.
\<close>

lemma sint_ucast_u32 [simp]: "sint (ucast (b::u32) :: i64) = uint b"
proof -
  have "uint b < 2^32" using uint_bounded [of b] by simp
  then have "uint b < 2^63" by simp
  have "sint (ucast b :: i64) = signed_take_bit 63 (uint b)"
    by (simp add: sint_uint uint_up_ucast is_up)
  also have "\<dots> = uint b" using \<open>uint b < 2^63\<close>
    by (intro signed_take_bit_int_eq_self) (auto intro: order_trans [OF _ uint_ge_0])
  finally show ?thesis .
qed

lemma sint_add_nonneg:
  "0 \<le> sint (a::i64) \<Longrightarrow> 0 \<le> sint c \<Longrightarrow> sint a + sint c < 2^63 \<Longrightarrow> sint (a + c) = sint a + sint c"
  by (simp add: sint_word_add signed_take_bit_int_eq_self)

lemma sint_add_u32:
  "0 \<le> sint (a::i64) \<Longrightarrow> sint a + uint b < 2^63 \<Longrightarrow> sint (a + ucast (b::u32)) = sint a + uint b"
  using sint_add_nonneg [of a "ucast b"] by simp

lemma sint_of_nat_i64: "n < 2^63 \<Longrightarrow> sint (word_of_nat n :: i64) = int n"
proof -
  assume n: "n < 2^63"
  then have "unat (word_of_nat n :: i64) = n" by (simp add: unat_of_nat)
  then have "uint (word_of_nat n :: i64) = int n" by (metis uint_nat)
  moreover have "signed_take_bit 63 (int n) = int n"
    using n by (intro signed_take_bit_int_eq_self) auto
  ultimately show ?thesis by (simp add: sint_uint)
qed

lemma unat_u32_of_nat: "k < 2^32 \<Longrightarrow> unat (word_of_nat k :: u32) = k"
  by (simp add: unat_of_nat)

lemma ucast_u32_of_nat: "k < 2^32 \<Longrightarrow> (ucast (word_of_nat k :: u32) :: i64) = word_of_nat k"
  by (simp add: unsigned_of_nat take_bit_nat_eq_self)

lemma unat_u32_add_nat:
  "a + b < 2^32 \<Longrightarrow> unat (word_of_nat a + word_of_nat b :: u32) = a + b"
  by (metis of_nat_add unat_u32_of_nat)

lemma unat_plus_one: "(x::'a::len word) + 1 \<noteq> 0 \<Longrightarrow> unat (x + 1) = Suc (unat x)"
  by (metis add.commute unatSuc)

text \<open>A loop counter below a bound does not wrap when it steps.\<close>

lemma unat_suc_less: "(i::'a::len word) < n \<Longrightarrow> unat (i + 1) = Suc (unat i)"
proof -
  assume "i < n"
  then have "unat i < unat n" by (simp add: word_less_nat_alt)
  moreover have "unat n < 2 ^ LENGTH('a)" "unat (1::'a word) = 1" by (rule unsigned_less) simp
  ultimately have "unat i + unat (1::'a word) < 2 ^ LENGTH('a)" by linarith
  then show ?thesis using unat_add_lem [of i 1] by simp
qed

text \<open>Go's \<open>off + int64(n)\<close> on a file offset that is a length, below \<open>2^63\<close>.\<close>

lemma sint_i64_add_nat:
  assumes "sint (off::i64) = int L" "L + n < 2^63"
  shows "sint (off + word_of_nat n) = int L + int n"
proof -
  have "off = word_of_int (sint off)" by simp
  also have "\<dots> = word_of_nat L" using assms(1) by simp
  finally have "off = word_of_nat L" .
  then have "off + word_of_nat n = word_of_nat (L + n)" by simp
  then show ?thesis using sint_of_nat_i64 [OF assms(2)] by simp
qed

lemma ucast_u32_i64: "(ucast (w::u32) :: i64) = word_of_nat (unat w)"
  using ucast_u32_of_nat [of "unat w"] by simp

lemma unat_ucast_u16_u32: "unat (ucast (t::u16) :: u32) = unat t"
proof -
  have "unat t < 2 ^ 16" using unsigned_less [of t] by simp
  then show ?thesis by (simp add: unsigned_ucast_eq take_bit_nat_eq_self)
qed

lemma butlast_update: "xs \<noteq> [] \<Longrightarrow> xs[length xs - 1 := b] = butlast xs @ [b]"
  by (induction xs) (auto simp: nth_append split: nat.splits)

lemma unat_add_u32: "unat (a::u32) + unat b < 2^32 \<Longrightarrow> unat (a + b) = unat a + unat b"
  using unat_add_lem [of a b] by simp

subsection \<open>Codec facts\<close>

lemma length_le_enc [simp, codec_simps]: "length (le_enc n w) = n"
  by (induction n arbitrary: w) auto

lemma le_dec_le_enc_take: "le_dec (le_enc n w) = take_bit (8 * n) w"
proof (induction n arbitrary: w)
  case 0
  then show ?case by simp
next
  case (Suc n)
  show ?case
    by (rule bit_word_eqI) (auto simp: Suc bit_simps)
qed

lemma le_dec_le_enc [codec_simps]:
  "LENGTH('a) \<le> 8 * n \<Longrightarrow> le_dec (le_enc n (w::'a::len word)) = w"
  by (simp add: le_dec_le_enc_take take_bit_word_eq_self)

lemma take_bit_eq_self_bits:
  "(\<And>m. bit (x::'a::len word) m \<Longrightarrow> m < n) \<Longrightarrow> take_bit n x = x"
  by (rule bit_word_eqI) (auto simp: bit_take_bit_iff)

lemma le_dec_bound: "take_bit (8 * length bs) (le_dec bs :: 'a::len word) = le_dec bs"
proof (induction bs)
  case Nil
  then show ?case by simp
next
  case (Cons b bs)
  have "bit (le_dec (b # bs) :: 'a word) m \<Longrightarrow> m < 8 * length (b # bs)" for m
  proof -
    assume m: "bit (le_dec (b # bs) :: 'a word) m"
    show ?thesis
    proof (cases "m < 8")
      case False
      with m have "bit (le_dec bs :: 'a word) (m - 8)"
        by (auto simp: bit_simps dest: bit_imp_le_length)
      then have "m - 8 < 8 * length bs"
        by (metis Cons.IH bit_take_bit_iff)
      then show ?thesis by simp
    qed simp
  qed
  then show ?case
    by (rule take_bit_eq_self_bits)
qed

lemma le_enc_le_dec [codec_simps]:
  "length bs = n \<Longrightarrow> 8 * n \<le> LENGTH('a) \<Longrightarrow> le_enc n (le_dec bs :: 'a::len word) = bs"
proof (induction bs arbitrary: n)
  case Nil
  then show ?case by simp
next
  case (Cons b bs)
  then obtain k where n: "n = Suc k" and k: "length bs = k" by auto
  have lo: "ucast (le_dec (b # bs) :: 'a word) = b"
    using Cons.prems by (intro bit_word_eqI) (auto simp: bit_simps n)
  have hi: "drop_bit 8 (le_dec (b # bs) :: 'a word) = le_dec bs"
  proof (rule bit_word_eqI)
    fix m
    assume "m < LENGTH('a)"
    have "bit (le_dec bs :: 'a word) m \<Longrightarrow> m < 8 * k"
      by (metis k le_dec_bound bit_take_bit_iff)
    then show "bit (drop_bit 8 (le_dec (b # bs) :: 'a word)) m = bit (le_dec bs :: 'a word) m"
      using Cons.prems n by (auto simp: bit_simps dest: bit_imp_le_length)
  qed
  have "8 * k \<le> LENGTH('a)" using Cons.prems n by simp
  then have IH: "le_enc k (le_dec bs :: 'a word) = bs" by (rule Cons.IH [OF k])
  have "le_enc n (le_dec (b # bs) :: 'a word)
      = ucast (le_dec (b # bs) :: 'a word) # le_enc k (drop_bit 8 (le_dec (b # bs) :: 'a word))"
    by (simp only: n le_enc.simps)
  then show ?case by (simp only: lo hi IH)
qed

lemma go_slice_Some [simp]:
  "lo \<le> hi \<Longrightarrow> hi \<le> length xs \<Longrightarrow> go_slice xs lo hi = Some (take (hi - lo) (drop lo xs))"
  by (simp add: go_slice_def)

lemma go_slice_None [simp]:
  "\<not> hi \<le> length xs \<Longrightarrow> go_slice xs lo hi = None"
  by (simp add: go_slice_def)

lemma length_frame [simp, codec_simps]: "length (frame p) = length p + 4"
  by (simp add: frame_def)

subsection \<open>Association lists\<close>

lemma fold_upd_map_of: "fold (\<lambda>(k, v) m. m(k \<mapsto> v)) ps m = m ++ map_of (rev ps)"
  by (induction ps arbitrary: m) (auto simp: map_add_def fun_eq_iff split: option.splits)

lemma sum_last_le:
  "distinct xs \<Longrightarrow> set xs \<subseteq> fst ` set ps \<Longrightarrow>
   (\<Sum>k\<leftarrow>xs. g (the (map_of (rev ps) k))) \<le> (\<Sum>(k, v)\<leftarrow>ps. (g v :: nat))"
proof (induction ps arbitrary: xs rule: rev_induct)
  case Nil
  then show ?case by simp
next
  case (snoc p ps)
  obtain k v where p: "p = (k, v)" by (cases p)
  show ?case
  proof (cases "k \<in> set xs")
    case True
    have r: "set (remove1 k xs) \<subseteq> fst ` set ps" "distinct (remove1 k xs)"
      using snoc.prems True by (auto simp: p)
    have "(\<Sum>k'\<leftarrow>xs. g (the (map_of (rev (ps @ [p])) k'))) = g v + (\<Sum>k'\<leftarrow>remove1 k xs. g (the (map_of (rev ps) k')))"
    proof -
      have "(\<Sum>k'\<leftarrow>xs. g (the (map_of (rev (ps @ [p])) k'))) = g v + (\<Sum>k'\<leftarrow>remove1 k xs. g (the (map_of (rev (ps @ [p])) k')))"
        using True snoc.prems(1) by (simp add: sum_list_map_remove1 p)
      also have "(\<Sum>k'\<leftarrow>remove1 k xs. g (the (map_of (rev (ps @ [p])) k'))) = (\<Sum>k'\<leftarrow>remove1 k xs. g (the (map_of (rev ps) k')))"
        using snoc.prems(1) by (intro arg_cong [where f = sum_list] map_cong) (auto simp: p)
      finally show ?thesis .
    qed
    then show ?thesis using snoc.IH [OF r(2) r(1)] by (simp add: p)
  next
    case False
    have "(\<Sum>k'\<leftarrow>xs. g (the (map_of (rev (ps @ [p])) k'))) = (\<Sum>k'\<leftarrow>xs. g (the (map_of (rev ps) k')))"
      using False by (intro arg_cong [where f = sum_list] map_cong) (auto simp: p)
    moreover have "set xs \<subseteq> fst ` set ps" using snoc.prems(2) False by (auto simp: p)
    ultimately show ?thesis using snoc.IH [OF snoc.prems(1)] by (simp add: p)
  qed
qed

end
