(* ===== verification/MemTable.thy ===== *)
theory MemTable
  imports Prelude "HOL-Library.Mapping"
begin

text \<open>
  The byte slab of the memdb and the small key-value table built on it
  (\<open>unnamed/part_002\<close>: \<open>DB.Set\<close>, \<open>DB.Get\<close>, \<open>DB.Count\<close>,
  \<open>DB.Close\<close>, \<open>DB.FileSize\<close>).  The slab
  (\<open>_DataTable\<close> and \<open>tableManager\<close>, \<open>memdb/table.go\<close>) is not among
  the sources; it is modelled from the specification as an append-only byte list:
  \<open>allocate\<close> appends zeros and returns the old end, \<open>writeAt\<close> overwrites
  inside the slab, \<open>readRaw\<close> copies out of it; the last two fail out of range.
  The key-value table appends a frame \<open>| u32 len | data |\<close> per \<open>Set\<close> and
  keeps the offset of the latest frame of each key.  The lemmas show that
  \<open>Get\<close> after \<open>Set\<close> returns the data, that other keys are not disturbed,
  that \<open>Count\<close> counts distinct keys, and what a length that wraps at
  \<open>2^32\<close> does.
\<close>

subsection \<open>The byte slab\<close>

definition dt_allocate :: "nat \<Rightarrow> byte list \<Rightarrow> i64 \<times> byte list" where
  "dt_allocate n d = (word_of_nat (length d), d @ replicate n 0)"

definition dt_writeAt :: "byte list \<Rightarrow> i64 \<Rightarrow> byte list \<Rightarrow> go_error + byte list" where
  "dt_writeAt bs off d =
     (if 0 \<le> sint off \<and> nat (sint off) + length bs \<le> length d
      then Inr (take (nat (sint off)) d @ bs @ drop (nat (sint off) + length bs) d)
      else Inl (GoErr ''write out of range''))"

definition dt_readRaw :: "byte list \<Rightarrow> i64 \<Rightarrow> nat \<Rightarrow> go_error + byte list" where
  "dt_readRaw d off n =
     (if 0 \<le> sint off \<and> nat (sint off) + n \<le> length d
      then Inr (take n (drop (nat (sint off)) d))
      else Inl (GoErr ''read out of range''))"

subsection \<open>The key-value table\<close>

record kvdb =
  kv_table :: "byte list"
  kv_cache :: "(u64, i64) mapping"

definition kv_open :: kvdb where
  "kv_open = \<lparr>kv_table = [], kv_cache = Mapping.empty\<rparr>"

definition kv_set :: "u64 \<Rightarrow> byte list \<Rightarrow> kvdb \<Rightarrow> go_error option \<times> kvdb" where
  "kv_set k data db =
     (let n = (word_of_nat (length data + 4) :: u32);
          (off, t1) = dt_allocate (unat n) (kv_table db)
      in case dt_writeAt (le_enc 4 n) off t1 of
           Inl e \<Rightarrow> (Some e, db\<lparr>kv_table := t1\<rparr>)
         | Inr t2 \<Rightarrow>
             (case dt_writeAt data (off + 4) t2 of
                Inl e \<Rightarrow> (Some e, db\<lparr>kv_table := t2\<rparr>)
              | Inr t3 \<Rightarrow> (None, \<lparr>kv_table = t3, kv_cache = Mapping.update k off (kv_cache db)\<rparr>)))"

definition kv_get :: "u64 \<Rightarrow> kvdb \<Rightarrow> go_error + byte list" where
  "kv_get k db =
     (case Mapping.lookup (kv_cache db) k of
        None \<Rightarrow> Inl (GoErr ''cache for entry seq not found'')
      | Some off \<Rightarrow>
          (case dt_readRaw (kv_table db) off 4 of
             Inl e \<Rightarrow> Inl e
           | Inr scratch \<Rightarrow>
               (case dt_readRaw (kv_table db) off (unat (le_dec scratch :: u32)) of
                  Inl e \<Rightarrow> Inl e
                | Inr data \<Rightarrow> if length data < 4 then Inl (Panic ''slice bounds out of range'')
                             else Inr (drop 4 data))))"

definition kv_count :: "kvdb \<Rightarrow> u32" where
  "kv_count db = word_of_nat (Mapping.size (kv_cache db))"

text \<open>
  \<open>DB.Close\<close>: close the slab, remove its file, then close and drop the
  closer.  The outcomes of the three calls are inputs; the closer is \<open>None\<close>
  when nil and \<open>Some r\<close> when its \<open>Close\<close> returns \<open>r\<close>.  The result is
  the error and the closer afterwards.
\<close>

definition kv_close :: "go_error option \<Rightarrow> go_error option \<Rightarrow> go_error option option
                        \<Rightarrow> go_error option \<times> go_error option option" where
  "kv_close cacheCloseErr removeErr closer =
     (case cacheCloseErr of
        Some e \<Rightarrow> (Some e, closer)
      | None \<Rightarrow>
          (case removeErr of
             Some e \<Rightarrow> (Some e, closer)
           | None \<Rightarrow> (case closer of None \<Rightarrow> (None, None) | Some r \<Rightarrow> (r, None))))"

text \<open>\<open>DB.FileSize\<close>: the size of the slab, never an error.\<close>

definition kv_fileSize :: "kvdb \<Rightarrow> i64 \<times> go_error option" where
  "kv_fileSize db = (word_of_nat (length (kv_table db)), None)"

subsection \<open>Slab facts\<close>

lemma dt_writeAt_nat:
  "p + length bs \<le> length d \<Longrightarrow> p < 2^63 \<Longrightarrow>
   dt_writeAt bs (word_of_nat p) d = Inr (take p d @ bs @ drop (p + length bs) d)"
  by (simp add: dt_writeAt_def sint_of_nat_i64)

lemma dt_readRaw_nat:
  "p + n \<le> length d \<Longrightarrow> p < 2^63 \<Longrightarrow>
   dt_readRaw d (word_of_nat p) n = Inr (take n (drop p d))"
  by (simp add: dt_readRaw_def sint_of_nat_i64)

lemma dt_readRaw_append:
  "dt_readRaw d off n = Inr r \<Longrightarrow> dt_readRaw (d @ e) off n = Inr r"
  by (auto simp: dt_readRaw_def split: if_splits)

lemma dt_allocate_prefix: "\<exists>e. snd (dt_allocate n d) = d @ e"
  by (simp add: dt_allocate_def)

lemma dt_writeAt_beyond:
  "length d0 \<le> nat (sint off) \<Longrightarrow> dt_writeAt bs off (d0 @ e) = Inr d' \<Longrightarrow> \<exists>e'. d' = d0 @ e'"
  by (auto simp: dt_writeAt_def split: if_splits)

text \<open>
  Reading back a frame appended at the end of the slab: first its four length
  bytes, then the whole frame.
\<close>

lemma read_appended:
  assumes "length bs < 2^32" "4 \<le> length bs" "length d + length bs < 2^63"
    "take 4 bs = le_enc 4 (word_of_nat (length bs) :: u32)"
  shows "dt_readRaw (d @ bs @ e) (word_of_nat (length d)) 4 = Inr (le_enc 4 (word_of_nat (length bs) :: u32))"
    and "dt_readRaw (d @ bs @ e) (word_of_nat (length d)) (length bs) = Inr bs"
  using assms by (simp_all add: dt_readRaw_nat)

lemma le_dec_len_u32:
  "n < 2^32 \<Longrightarrow> unat (le_dec (le_enc 4 (word_of_nat n :: u32)) :: u32) = n"
  by (simp add: le_dec_le_enc unat_u32_of_nat)

subsection \<open>Set, Get and Count\<close>

lemma kv_set_ok:
  assumes "length data + 4 < 2^32" "length (kv_table db) + length data + 4 < 2^63"
  shows "kv_set k data db =
           (None, \<lparr>kv_table = kv_table db @ frame data,
                   kv_cache = Mapping.update k (word_of_nat (length (kv_table db))) (kv_cache db)\<rparr>)"
proof -
  let ?T = "kv_table db" and ?L = "length data"
  let ?n = "word_of_nat (?L + 4) :: u32" and ?off = "word_of_nat (length ?T) :: i64"
  have u: "unat ?n = ?L + 4" using assms(1) unat_u32_of_nat [of "?L + 4"] by (simp add: add.commute)
  have w1: "dt_writeAt (le_enc 4 ?n) ?off (?T @ replicate (?L + 4) 0) = Inr (?T @ le_enc 4 ?n @ replicate ?L 0)"
    using assms by (simp add: dt_writeAt_nat)
  have o4: "?off + 4 = word_of_nat (length ?T + 4)" by simp
  have w2: "dt_writeAt data (?off + 4) (?T @ le_enc 4 ?n @ replicate ?L 0) = Inr (?T @ le_enc 4 ?n @ data)"
    unfolding o4 using assms by (subst dt_writeAt_nat) simp_all
  show ?thesis
    by (simp only: kv_set_def dt_allocate_def Let_def prod.case u w1 sum.case w2) (simp add: frame_def add.commute)
qed

lemma kv_get_frame:
  assumes "length data + 4 < 2^32" "length T + length data + 4 < 2^63"
    "Mapping.lookup c k = Some (word_of_nat (length T))"
  shows "kv_get k \<lparr>kv_table = T @ frame data, kv_cache = c\<rparr> = Inr data"
proof -
  let ?n = "word_of_nat (length data + 4) :: u32"
  have r1: "dt_readRaw (T @ frame data) (word_of_nat (length T)) 4 = Inr (le_enc 4 ?n)"
    using assms by (simp add: frame_def dt_readRaw_nat)
  have u: "unat (le_dec (le_enc 4 ?n) :: u32) = length data + 4"
    using assms(1) by (rule le_dec_len_u32)
  have r2: "dt_readRaw (T @ frame data) (word_of_nat (length T)) (length data + 4) = Inr (frame data)"
    using assms by (simp add: dt_readRaw_nat)
  show ?thesis
    by (simp only: kv_get_def kvdb.simps assms(3) option.case r1 sum.case u r2) (simp add: frame_def)
qed

theorem kv_get_set:
  assumes "length data + 4 < 2^32" "length (kv_table db) + length data + 4 < 2^63"
  shows "fst (kv_set k data db) = None \<and> kv_get k (snd (kv_set k data db)) = Inr data"
  using assms by (simp add: kv_set_ok kv_get_frame)

lemma dt_writeAt_extends:
  "dt_writeAt bs (word_of_nat p) (d0 @ e) = Inr d' \<Longrightarrow> length d0 \<le> p \<Longrightarrow> p < 2^63 \<Longrightarrow> \<exists>e'. d' = d0 @ e'"
  by (rule dt_writeAt_beyond) (simp_all add: sint_of_nat_i64)

lemma kv_set_extends:
  assumes "length (kv_table db) + 4 < 2^63"
  shows "\<exists>e. kv_table (snd (kv_set k data db)) = kv_table db @ e \<and>
     (kv_cache (snd (kv_set k data db)) = kv_cache db \<or>
      kv_cache (snd (kv_set k data db)) = Mapping.update k (word_of_nat (length (kv_table db))) (kv_cache db))"
proof -
  let ?T = "kv_table db" and ?n = "word_of_nat (length data + 4) :: u32"
  show ?thesis
  proof (cases "dt_writeAt (le_enc 4 ?n) (word_of_nat (length ?T)) (?T @ replicate (unat ?n) 0)")
    case (Inl e)
    then show ?thesis by (simp add: kv_set_def dt_allocate_def Let_def)
  next
    case (Inr t2)
    then obtain e2 where t2: "t2 = ?T @ e2" using assms by (auto dest: dt_writeAt_extends)
    show ?thesis
    proof (cases "dt_writeAt data ((word_of_nat (length ?T) :: i64) + 4) t2")
      case (Inl e)
      then show ?thesis using Inr t2 by (simp add: kv_set_def dt_allocate_def Let_def)
    next
      case (Inr t3)
      then have "dt_writeAt data (word_of_nat (length ?T + 4)) (?T @ e2) = Inr t3" by (simp add: t2)
      from dt_writeAt_extends [OF this] obtain e3 where "t3 = ?T @ e3" using assms by auto
      then show ?thesis using Inr \<open>dt_writeAt _ _ _ = Inr t2\<close> by (simp add: kv_set_def dt_allocate_def Let_def)
    qed
  qed
qed

lemma kv_get_extend:
  "kv_get k db = Inr v \<Longrightarrow> kv_table db' = kv_table db @ e \<Longrightarrow>
   Mapping.lookup (kv_cache db') k = Mapping.lookup (kv_cache db) k \<Longrightarrow> kv_get k db' = Inr v"
  by (auto simp: kv_get_def dt_readRaw_append split: option.splits sum.splits if_splits)

theorem kv_set_other:
  assumes "k' \<noteq> k" "length (kv_table db) + 4 < 2^63" "kv_get k' db = Inr v"
  shows "kv_get k' (snd (kv_set k data db)) = Inr v"
proof -
  obtain e where t: "kv_table (snd (kv_set k data db)) = kv_table db @ e"
    and c: "Mapping.lookup (kv_cache (snd (kv_set k data db))) k' = Mapping.lookup (kv_cache db) k'"
    using kv_set_extends [OF assms(2), of k data] assms(1) by auto
  show ?thesis by (rule kv_get_extend [OF assms(3) t c])
qed

theorem kv_count_set:
  assumes "length data + 4 < 2^32" "length (kv_table db) + length data + 4 < 2^63"
  shows "kv_count (snd (kv_set k data db)) =
           (if k \<in> Mapping.keys (kv_cache db) then kv_count db else kv_count db + 1)"
  using assms by (simp add: kv_set_ok kv_count_def size_update)

theorem kv_get_set_witness:
  "length [1, 2::byte] + 4 < 2^32 \<and> length (kv_table kv_open) + length [1, 2::byte] + 4 < 2^63
   \<and> fst (kv_set 7 [1, 2] kv_open) = None \<and> kv_get 7 (snd (kv_set 7 [1, 2] kv_open)) = Inr [1, 2]"
  using kv_get_set [of "[1, 2]" kv_open 7] by (simp add: kv_open_def)

theorem kv_set_other_witness:
  "(1::u64) \<noteq> 2 \<and> length (kv_table (snd (kv_set 1 [5] kv_open))) + 4 < 2^63
   \<and> kv_get 1 (snd (kv_set 1 [5] kv_open)) = Inr [5]
   \<and> kv_get 1 (snd (kv_set 2 [6, 6] (snd (kv_set 1 [5] kv_open)))) = Inr [5]"
proof -
  have g: "kv_get 1 (snd (kv_set 1 [5] kv_open)) = Inr [5]"
    using kv_get_set [of "[5]" kv_open 1] by (simp add: kv_open_def)
  have l: "length (kv_table (snd (kv_set 1 [5] kv_open))) + 4 < 2^63"
    by (simp add: kv_set_ok kv_open_def)
  show ?thesis using kv_set_other [of 1 2 "snd (kv_set 1 [5] kv_open)" "[5]" "[6, 6]", OF _ l g] g l by simp
qed

theorem kv_count_set_witness:
  "length [1::byte] + 4 < 2^32 \<and> length (kv_table kv_open) + length [1::byte] + 4 < 2^63
   \<and> kv_count (snd (kv_set 3 [1] kv_open)) = 1"
  using kv_count_set [of "[1]" kv_open 3] by (simp add: kv_open_def kv_count_def)

subsection \<open>Close and FileSize\<close>

text \<open>
  \<open>Close\<close> closes the closer only when the slab closed and its file was
  removed; otherwise it returns that error and leaves the closer set.
\<close>

lemma kv_close_ok: "kv_close None None closer = (case closer of None \<Rightarrow> None | Some r \<Rightarrow> r, None)"
  by (simp add: kv_close_def split: option.split)

lemma kv_close_error_keeps_closer:
  "cacheCloseErr \<noteq> None \<or> removeErr \<noteq> None \<Longrightarrow>
   kv_close cacheCloseErr removeErr closer = (if cacheCloseErr \<noteq> None then cacheCloseErr else removeErr, closer)"
  by (auto simp: kv_close_def split: option.split)

lemma dt_writeAt_length: "dt_writeAt bs off d = Inr d' \<Longrightarrow> length d' = length d"
  by (auto simp: dt_writeAt_def split: if_splits)

text \<open>
  Every \<open>Set\<close>, failed or not, grows the slab by the frame's length as a
  \<open>uint32\<close>: the space is allocated before the writes that may fail.
\<close>

lemma kv_set_grows:
  "length (kv_table (snd (kv_set k data db)))
     = length (kv_table db) + unat (word_of_nat (length data + 4) :: u32)"
  by (auto simp: kv_set_def dt_allocate_def Let_def split: sum.split dest!: dt_writeAt_length)

lemma kv_fileSize_set:
  "fst (kv_fileSize (snd (kv_set k data db)))
     = fst (kv_fileSize db) + word_of_nat (unat (word_of_nat (length data + 4) :: u32))"
  by (simp add: kv_fileSize_def kv_set_grows)

end
