(* ===== verification/Segments.thy ===== *)
theory Segments
  imports Prelude
begin

text \<open>
  The segmented log file of the WAL (\<open>wal/file.go\<close>, staged as
  \<open>src/unnamed/part_001\<close>, lines 26--237).  The file keeps three free
  segments \<open>{offset:int64, size:uint32}\<close> in its header: segment 0 collects
  space freed at the head, segment 1 is the free area that allocation carves
  from once the log has reached its target size, segment 2 the retired free area
  that \<open>swap\<close> rotates.  \<open>_File.allocate\<close> either extends the file or carves
  from segment 1.  The abstraction \<open>free_space\<close> reads the three segments as a
  set of byte positions; the lemmas show that allocation removes exactly the
  returned block from it, that \<open>free\<close> adds exactly the freed block, and that
  \<open>swap\<close> never marks used bytes as free (but may forget free ones).
\<close>

definition headerSize :: u32 where
  "headerSize = 47"

record segment =
  seg_offset :: i64
  seg_size :: u32

text \<open>\<open>_Segments\<close> is the Go array \<open>[3]_Segment\<close>; \<open>sg0\<close>--\<open>sg2\<close> are its cells.\<close>

record segments =
  sg0 :: segment
  sg1 :: segment
  sg2 :: segment

record wal_file =
  segments :: segments
  fsize :: i64
  targetSize :: i64

text \<open>\<open>sg[i].offset + int64(sg[i].size)\<close>, the end of a segment as the code computes it.\<close>

definition seg_end :: "segment \<Rightarrow> i64" where
  "seg_end s = seg_offset s + ucast (seg_size s)"

definition newSegments :: segments where
  "newSegments =
     \<lparr>sg0 = \<lparr>seg_offset = ucast headerSize, seg_size = 0\<rparr>,
      sg1 = \<lparr>seg_offset = ucast headerSize, seg_size = 0\<rparr>,
      sg2 = \<lparr>seg_offset = 0, seg_size = 0\<rparr>\<rparr>"

definition currSize :: "segments \<Rightarrow> u32" where
  "currSize sg = seg_size (sg1 sg)"

definition recoveryOffset :: "segments \<Rightarrow> i64 \<Rightarrow> i64" where
  "recoveryOffset sg off =
     (let off1 = (if off = seg_offset (sg0 sg) then off + ucast (seg_size (sg0 sg)) else off);
          off2 = (if off1 = seg_offset (sg1 sg) then off1 + ucast (seg_size (sg1 sg)) else off1)
      in if off2 = seg_offset (sg2 sg) then off2 + ucast (seg_size (sg2 sg)) else off2)"

definition freeSize :: "segments \<Rightarrow> i64 \<Rightarrow> u32" where
  "freeSize sg off =
     (if off = seg_offset (sg0 sg) then seg_size (sg0 sg)
      else if off = seg_offset (sg1 sg) then seg_size (sg1 sg)
      else if off = seg_offset (sg2 sg) then seg_size (sg2 sg)
      else 0)"

text \<open>\<open>_Segments.allocate\<close>: carve \<open>n\<close> bytes from the head of segment 1 (no check).\<close>

definition seg_allocate :: "segments \<Rightarrow> u32 \<Rightarrow> i64 \<times> segments" where
  "seg_allocate sg n =
     (seg_offset (sg1 sg),
      sg\<lparr>sg1 := \<lparr>seg_offset = seg_offset (sg1 sg) + ucast n, seg_size = seg_size (sg1 sg) - n\<rparr>\<rparr>)"

text \<open>\<open>_Segments.free\<close>: grow segment 0 or 1 at its trailing edge, else report \<open>false\<close>.\<close>

definition seg_free :: "segments \<Rightarrow> i64 \<Rightarrow> u32 \<Rightarrow> bool \<times> segments" where
  "seg_free sg off n =
     (if seg_end (sg0 sg) = off then (True, sg\<lparr>sg0 := (sg0 sg)\<lparr>seg_size := seg_size (sg0 sg) + n\<rparr>\<rparr>)
      else if seg_end (sg1 sg) = off then (True, sg\<lparr>sg1 := (sg1 sg)\<lparr>seg_size := seg_size (sg1 sg) + n\<rparr>\<rparr>)
      else (False, sg))"

text \<open>
  \<open>_Segments.swap\<close>: merge segment 2 into segment 1 when they touch, then, if
  the target size is below the size of segment 0, rotate: segment 1 moves to
  slot 2, segment 0 to slot 1, and segment 0 is emptied.  The returned error is
  always \<open>nil\<close>.
\<close>

definition seg_swap :: "i64 \<Rightarrow> segments \<Rightarrow> segments" where
  "seg_swap target sg =
     (let sg' = (if seg_size (sg1 sg) \<noteq> 0 \<and> seg_end (sg1 sg) = seg_offset (sg2 sg)
                 then sg\<lparr>sg1 := (sg1 sg)\<lparr>seg_size := seg_size (sg1 sg) + seg_size (sg2 sg)\<rparr>,
                         sg2 := (sg2 sg)\<lparr>seg_size := 0\<rparr>\<rparr>
                 else sg)
      in if target <s ucast (seg_size (sg0 sg'))
         then \<lparr>sg0 = (sg0 sg')\<lparr>seg_size := 0\<rparr>, sg1 = sg0 sg', sg2 = sg1 sg'\<rparr>
         else sg')"

text \<open>
  \<open>_File.truncate\<close> and \<open>_File.allocate\<close>.  \<open>io_ok\<close> is the outcome of the
  operating-system call \<open>Truncate\<close>.  Allocation of zero bytes panics; the file
  is extended while it is below its target size or segment 1 is too small.
\<close>

definition file_truncate :: "bool \<Rightarrow> i64 \<Rightarrow> wal_file \<Rightarrow> go_error + wal_file" where
  "file_truncate io_ok n f = (if io_ok then Inr (f\<lparr>fsize := n\<rparr>) else Inl IOError)"

definition file_allocate :: "bool \<Rightarrow> u32 \<Rightarrow> wal_file \<Rightarrow> go_error + (i64 \<times> wal_file)" where
  "file_allocate io_ok n f =
     (if n = 0 then Inl (Panic ''unable to allocate zero bytes'')
      else if fsize f + ucast n <s targetSize f \<or> currSize (segments f) < n
      then (if io_ok then Inr (fsize f, f\<lparr>fsize := fsize f + ucast n\<rparr>) else Inl IOError)
      else (let (off, sg) = seg_allocate (segments f) n in Inr (off, f\<lparr>segments := sg\<rparr>)))"

subsection \<open>Free space and well-formedness\<close>

definition region :: "segment \<Rightarrow> int set" where
  "region s = {sint (seg_offset s) ..< sint (seg_offset s) + uint (seg_size s)}"

definition block :: "i64 \<Rightarrow> u32 \<Rightarrow> int set" where
  "block off n = {sint off ..< sint off + uint n}"

definition free_space :: "segments \<Rightarrow> int set" where
  "free_space sg = region (sg0 sg) \<union> region (sg1 sg) \<union> region (sg2 sg)"

text \<open>
  A segment is placed when it is empty or lies between the file header and the
  end of the file; two segments are apart when their byte ranges do not meet.
  Both are decided on the integers, so that concrete files evaluate.
\<close>

definition seg_placed :: "i64 \<Rightarrow> segment \<Rightarrow> bool" where
  "seg_placed fs s \<longleftrightarrow> seg_size s = 0 \<or>
     (uint headerSize \<le> sint (seg_offset s) \<and> sint (seg_offset s) + uint (seg_size s) \<le> sint fs)"

definition seg_apart :: "segment \<Rightarrow> segment \<Rightarrow> bool" where
  "seg_apart a b \<longleftrightarrow> seg_size a = 0 \<or> seg_size b = 0 \<or>
     sint (seg_offset a) + uint (seg_size a) \<le> sint (seg_offset b) \<or>
     sint (seg_offset b) + uint (seg_size b) \<le> sint (seg_offset a)"

definition file_wf :: "wal_file \<Rightarrow> bool" where
  "file_wf f \<longleftrightarrow> uint headerSize \<le> sint (fsize f) \<and>
     seg_placed (fsize f) (sg0 (segments f)) \<and> seg_placed (fsize f) (sg1 (segments f)) \<and>
     seg_placed (fsize f) (sg2 (segments f)) \<and>
     seg_apart (sg0 (segments f)) (sg1 (segments f)) \<and>
     seg_apart (sg0 (segments f)) (sg2 (segments f)) \<and>
     seg_apart (sg1 (segments f)) (sg2 (segments f))"


subsection \<open>Concrete files\<close>

text \<open>Two small log files used by the witnesses below.\<close>

definition demo_file :: wal_file where
  "demo_file = \<lparr>segments = \<lparr>sg0 = \<lparr>seg_offset = 47, seg_size = 0\<rparr>,
                             sg1 = \<lparr>seg_offset = 100, seg_size = 50\<rparr>,
                             sg2 = \<lparr>seg_offset = 0, seg_size = 0\<rparr>\<rparr>,
                fsize = 200, targetSize = 100\<rparr>"

definition leaky_file :: wal_file where
  "leaky_file = \<lparr>segments = \<lparr>sg0 = \<lparr>seg_offset = 47, seg_size = 10\<rparr>,
                              sg1 = \<lparr>seg_offset = 100, seg_size = 10\<rparr>,
                              sg2 = \<lparr>seg_offset = 150, seg_size = 20\<rparr>\<rparr>,
                 fsize = 200, targetSize = 5\<rparr>"

subsection \<open>Helper facts\<close>


lemma region_empty [simp]: "seg_size s = 0 \<Longrightarrow> region s = {}"
  by (simp add: region_def)

lemma int_ivl_disjoint:
  "{x ..< x + s} \<inter> {y ..< y + t} = {} \<longleftrightarrow> s \<le> 0 \<or> t \<le> 0 \<or> x + s \<le> y \<or> y + t \<le> x" for x y s t :: int
proof
  assume d: "{x ..< x + s} \<inter> {y ..< y + t} = {}"
  show "s \<le> 0 \<or> t \<le> 0 \<or> x + s \<le> y \<or> y + t \<le> x"
  proof (rule ccontr)
    assume "\<not> ?thesis"
    then have "max x y \<in> {x ..< x + s} \<inter> {y ..< y + t}" by auto
    with d show False by blast
  qed
qed auto

lemma seg_apart_iff: "seg_apart a b \<longleftrightarrow> region a \<inter> region b = {}"
proof -
  have "seg_size s = 0 \<longleftrightarrow> uint (seg_size s) \<le> 0" for s
    by (metis order_antisym uint_0_eq uint_ge_0 word_uint_eq_iff)
  then show ?thesis
    unfolding seg_apart_def region_def int_ivl_disjoint by blast
qed

lemma seg_placed_nonneg:
  "seg_placed fs s \<Longrightarrow> seg_size s \<noteq> 0 \<Longrightarrow> 47 \<le> sint (seg_offset s) \<and> sint (seg_offset s) + uint (seg_size s) \<le> sint fs"
  by (simp add: seg_placed_def headerSize_def)

lemma sint_i64_less: "sint (x::i64) < 2^63"
  using sint_lt [of x] by simp

lemma seg_end_sint:
  "seg_placed fs s \<Longrightarrow> seg_size s \<noteq> 0 \<Longrightarrow> sint (seg_end s) = sint (seg_offset s) + uint (seg_size s)"
  using seg_placed_nonneg [of fs s] sint_i64_less [of fs]
  by (simp add: seg_end_def sint_add_u32)

lemma region_sub_file:
  "seg_placed fs s \<Longrightarrow> region s \<subseteq> {uint headerSize ..< sint fs}"
  by (cases "seg_size s = 0") (auto simp: region_def seg_placed_def)

lemma seg_placed_mono:
  "seg_placed fs s \<Longrightarrow> sint fs \<le> sint fs' \<Longrightarrow> seg_placed fs' s"
  by (auto simp: seg_placed_def)

lemma file_allocate_extend:
  assumes wf: "file_wf f" and fit: "sint (fsize f) + uint n < 2^63" and n: "n \<noteq> 0"
  defines "f' \<equiv> f\<lparr>fsize := fsize f + ucast n\<rparr>"
  shows "file_wf f' \<and> block (fsize f) n \<subseteq> {uint headerSize ..< sint (fsize f')}
         \<and> free_space (segments f') = free_space (segments f) - block (fsize f) n"
proof -
  have hs: "uint headerSize \<le> sint (fsize f)" using wf by (simp add: file_wf_def)
  then have sz: "sint (fsize f') = sint (fsize f) + uint n"
    using fit by (simp add: f'_def sint_add_u32 headerSize_def)
  have mono: "sint (fsize f) \<le> sint (fsize f')" by (simp add: sz)
  have wf': "file_wf f'"
    using wf mono hs by (auto simp: file_wf_def f'_def intro: seg_placed_mono)
  have "free_space (segments f) \<subseteq> {uint headerSize ..< sint (fsize f)}"
    using wf by (auto simp: free_space_def file_wf_def dest!: region_sub_file)
  then have "free_space (segments f) \<inter> block (fsize f) n = {}"
    by (auto simp: block_def)
  then have "free_space (segments f') = free_space (segments f) - block (fsize f) n"
    by (auto simp: f'_def)
  moreover have "block (fsize f) n \<subseteq> {uint headerSize ..< sint (fsize f')}"
    using hs by (auto simp: block_def sz)
  ultimately show ?thesis using wf' by blast
qed

lemma file_allocate_carve:
  assumes wf: "file_wf f" and n: "n \<noteq> 0" and le: "n \<le> seg_size (sg1 (segments f))"
  defines "r \<equiv> seg_allocate (segments f) n"
  shows "file_wf (f\<lparr>segments := snd r\<rparr>)
         \<and> block (fst r) n \<subseteq> {uint headerSize ..< sint (fsize f)}
         \<and> free_space (snd r) = free_space (segments f) - block (fst r) n"
proof -
  let ?s = "sg1 (segments f)"
  have ne: "seg_size ?s \<noteq> 0" using n le by auto
  have pl: "47 \<le> sint (seg_offset ?s) \<and> sint (seg_offset ?s) + uint (seg_size ?s) \<le> sint (fsize f)"
    using wf ne by (intro seg_placed_nonneg) (auto simp: file_wf_def)
  have un: "uint n \<le> uint (seg_size ?s)" using le by (simp add: word_le_def)
  have off': "sint (seg_offset ?s + ucast n) = sint (seg_offset ?s) + uint n"
    using pl un sint_i64_less [of "fsize f"] by (intro sint_add_u32) auto
  have sz': "uint (seg_size ?s - n) = uint (seg_size ?s) - uint n"
    using un uint_sub_lem by blast
  have r: "r = (seg_offset ?s, (segments f)\<lparr>sg1 := \<lparr>seg_offset = seg_offset ?s + ucast n, seg_size = seg_size ?s - n\<rparr>\<rparr>)"
    by (simp add: r_def seg_allocate_def)
  let ?s' = "\<lparr>seg_offset = seg_offset ?s + ucast n, seg_size = seg_size ?s - n\<rparr>"
  have reg': "region ?s' = region ?s - block (seg_offset ?s) n"
    by (auto simp: region_def block_def off' sz')
  have blk: "block (seg_offset ?s) n \<subseteq> region ?s"
    using un by (auto simp: region_def block_def)
  have d0: "region (sg0 (segments f)) \<inter> region ?s = {}" and d2: "region ?s \<inter> region (sg2 (segments f)) = {}"
    using wf by (auto simp: file_wf_def seg_apart_iff)
  have fs: "free_space (snd r) = free_space (segments f) - block (seg_offset ?s) n"
    using reg' blk d0 d2 by (auto simp: r free_space_def)
  have pl': "seg_placed (fsize f) ?s'"
  proof -
    have "47 \<le> sint (seg_offset ?s) + uint n" using pl uint_ge_0 [of n] by linarith
    then show ?thesis using pl off' sz' by (auto simp: seg_placed_def headerSize_def)
  qed
  have wf': "file_wf (f\<lparr>segments := snd r\<rparr>)"
    using wf pl' reg' by (auto simp: r file_wf_def seg_apart_iff)
  have "block (seg_offset ?s) n \<subseteq> {uint headerSize ..< sint (fsize f)}"
    using blk pl by (auto simp: region_def headerSize_def)
  then show ?thesis using wf' fs by (simp add: r)
qed

text \<open>C6: On a well-formed WAL file, a successful _File.allocate returns a block inside the file past the header, the file stays well-formed, and the free space of the three segments loses exactly that block.\<close>

theorem file_allocate_refines:
  assumes wf: "file_wf f" and fit: "sint (fsize f) + uint n < 2^63"
    and ok: "file_allocate io_ok n f = Inr (off, f')"
  shows "file_wf f' \<and> block off n \<subseteq> {uint headerSize ..< sint (fsize f')}
         \<and> free_space (segments f') = free_space (segments f) - block off n"
proof -
  have n: "n \<noteq> 0" using ok by (auto simp: file_allocate_def)
  show ?thesis
  proof (cases "fsize f + ucast n <s targetSize f \<or> currSize (segments f) < n")
    case True
    with ok n have "off = fsize f" and "f' = f\<lparr>fsize := fsize f + ucast n\<rparr>"
      by (auto simp: file_allocate_def split: if_splits)
    with file_allocate_extend [OF wf fit n] show ?thesis by simp
  next
    case False
    then have le: "n \<le> seg_size (sg1 (segments f))" by (simp add: currSize_def not_less)
    from False ok n have "off = fst (seg_allocate (segments f) n)"
      and "f' = f\<lparr>segments := snd (seg_allocate (segments f) n)\<rparr>"
      by (auto simp: file_allocate_def split: prod.splits)
    with file_allocate_carve [OF wf n le] show ?thesis by simp
  qed
qed

theorem file_allocate_refines_witness:
  "file_wf demo_file \<and> sint (fsize demo_file) + uint (20::u32) < 2^63
   \<and> file_allocate True 20 demo_file = Inr (100, demo_file\<lparr>segments := (segments demo_file)\<lparr>sg1 := \<lparr>seg_offset = 120, seg_size = 30\<rparr>\<rparr>\<rparr>)
   \<and> free_space (segments (demo_file\<lparr>segments := (segments demo_file)\<lparr>sg1 := \<lparr>seg_offset = 120, seg_size = 30\<rparr>\<rparr>\<rparr>))
     = free_space (segments demo_file) - block 100 20"
proof -
  have wf: "file_wf demo_file"
    by (simp add: file_wf_def demo_file_def seg_placed_def seg_apart_def headerSize_def)
  have fit: "sint (fsize demo_file) + uint (20::u32) < 2^63" by (simp add: demo_file_def)
  have run: "file_allocate True 20 demo_file = Inr (100, demo_file\<lparr>segments := (segments demo_file)\<lparr>sg1 := \<lparr>seg_offset = 120, seg_size = 30\<rparr>\<rparr>\<rparr>)"
    by (simp add: file_allocate_def demo_file_def currSize_def seg_allocate_def word_sless_alt)
  show ?thesis using file_allocate_refines [OF wf fit run] wf fit run by simp
qed

lemma seg_end_sint':
  "seg_placed fs s \<Longrightarrow> sint (seg_end s) = sint (seg_offset s) + uint (seg_size s)"
  by (cases "seg_size s = 0") (simp add: seg_end_def, simp add: seg_end_sint)

lemma int_ivl_split:
  "0 \<le> b \<Longrightarrow> 0 \<le> c \<Longrightarrow> {a ..< a + (b + c)} = {a ..< a + b} \<union> {a + b ..< a + b + c}" for a b c :: int
  by auto

lemma seg_grow:
  assumes pl: "seg_placed fs s" and e: "seg_end s = off"
    and inside: "block off n \<subseteq> {uint headerSize ..< sint fs}"
    and nov: "uint (seg_size s) + uint n < 2^32"
  shows "region (s\<lparr>seg_size := seg_size s + n\<rparr>) = region s \<union> block off n
         \<and> seg_placed fs (s\<lparr>seg_size := seg_size s + n\<rparr>)"
proof -
  have so: "sint off = sint (seg_offset s) + uint (seg_size s)"
    using seg_end_sint' [OF pl] e by simp
  have su: "uint (seg_size s + n) = uint (seg_size s) + uint n"
    using nov uint_ge_0 [of n] uint_ge_0 [of "seg_size s"] by (simp add: uint_word_ariths)
  have reg: "region (s\<lparr>seg_size := seg_size s + n\<rparr>) = region s \<union> block off n"
    unfolding region_def block_def so using int_ivl_split [OF uint_ge_0 uint_ge_0] by (simp add: su)
  have "seg_placed fs (s\<lparr>seg_size := seg_size s + n\<rparr>)"
  proof (cases "n = 0")
    case True
    with pl show ?thesis by simp
  next
    case False
    then have "uint n > 0" by (simp add: uint_0_iff order_le_neq_trans)
    then have "sint off \<in> block off n" and "sint off + uint n - 1 \<in> block off n"
      by (auto simp: block_def)
    with inside have b: "uint headerSize \<le> sint off" "sint off + uint n \<le> sint fs" by auto
    show ?thesis
    proof (cases "seg_size s = 0")
      case True
      with so b show ?thesis by (auto simp: seg_placed_def su)
    next
      case False
      with pl so b show ?thesis by (auto simp: seg_placed_def su)
    qed
  qed
  with reg show ?thesis by blast
qed

text \<open>C7: _Segments.free of a used block inside the file keeps the file well-formed and adds exactly that block to the free space when it reports true, and changes nothing when it reports false (given no uint32 overflow of the grown segment).\<close>

theorem seg_free_refines:
  assumes wf: "file_wf f"
    and inside: "block off n \<subseteq> {uint headerSize ..< sint (fsize f)}"
    and used: "block off n \<inter> free_space (segments f) = {}"
    and nov0: "uint (seg_size (sg0 (segments f))) + uint n < 2^32"
    and nov1: "uint (seg_size (sg1 (segments f))) + uint n < 2^32"
    and run: "seg_free (segments f) off n = (ok, sg')"
  shows "file_wf (f\<lparr>segments := sg'\<rparr>)
         \<and> free_space sg' = (if ok then free_space (segments f) \<union> block off n else free_space (segments f))"
proof -
  let ?sg = "segments f"
  have pl: "seg_placed (fsize f) (sg0 ?sg)" "seg_placed (fsize f) (sg1 ?sg)" "seg_placed (fsize f) (sg2 ?sg)"
    using wf by (simp_all add: file_wf_def)
  have ap: "region (sg0 ?sg) \<inter> region (sg1 ?sg) = {}" "region (sg0 ?sg) \<inter> region (sg2 ?sg) = {}"
    "region (sg1 ?sg) \<inter> region (sg2 ?sg) = {}"
    using wf by (simp_all add: file_wf_def seg_apart_iff)
  have ub: "block off n \<inter> region (sg0 ?sg) = {}" "block off n \<inter> region (sg1 ?sg) = {}"
    "block off n \<inter> region (sg2 ?sg) = {}"
    using used by (auto simp: free_space_def)
  show ?thesis
  proof (cases "seg_end (sg0 ?sg) = off")
    case True
    note g = seg_grow [OF pl(1) True inside nov0]
    from True run have "ok" and sg': "sg' = ?sg\<lparr>sg0 := (sg0 ?sg)\<lparr>seg_size := seg_size (sg0 ?sg) + n\<rparr>\<rparr>"
      by (auto simp: seg_free_def)
    show ?thesis using g wf ap ub \<open>ok\<close>
      by (auto simp: sg' file_wf_def seg_apart_iff free_space_def)
  next
    case False
    show ?thesis
    proof (cases "seg_end (sg1 ?sg) = off")
      case True
      note g = seg_grow [OF pl(2) True inside nov1]
      from False True run have "ok" and sg': "sg' = ?sg\<lparr>sg1 := (sg1 ?sg)\<lparr>seg_size := seg_size (sg1 ?sg) + n\<rparr>\<rparr>"
        by (auto simp: seg_free_def)
      show ?thesis using g wf ap ub \<open>ok\<close>
        by (auto simp: sg' file_wf_def seg_apart_iff free_space_def)
    next
      case False2: False
      with False run have "\<not> ok" and "sg' = ?sg" by (auto simp: seg_free_def)
      with wf show ?thesis by simp
    qed
  qed
qed

lemma seg_swap_merge:
  assumes wf: "file_wf f" and nov: "uint (seg_size (sg1 (segments f))) + uint (seg_size (sg2 (segments f))) < 2^32"
  defines "m \<equiv> (if seg_size (sg1 (segments f)) \<noteq> 0 \<and> seg_end (sg1 (segments f)) = seg_offset (sg2 (segments f))
                 then (segments f)\<lparr>sg1 := (sg1 (segments f))\<lparr>seg_size := seg_size (sg1 (segments f)) + seg_size (sg2 (segments f))\<rparr>,
                         sg2 := (sg2 (segments f))\<lparr>seg_size := 0\<rparr>\<rparr>
                 else segments f)"
  shows "file_wf (f\<lparr>segments := m\<rparr>) \<and> free_space m = free_space (segments f)"
proof (cases "seg_size (sg1 (segments f)) \<noteq> 0 \<and> seg_end (sg1 (segments f)) = seg_offset (sg2 (segments f))")
  case True
  let ?sg = "segments f"
  have pl: "seg_placed (fsize f) (sg1 ?sg)" "seg_placed (fsize f) (sg2 ?sg)"
    using wf by (simp_all add: file_wf_def)
  have r2: "region (sg2 ?sg) = block (seg_offset (sg2 ?sg)) (seg_size (sg2 ?sg))"
    by (simp add: region_def block_def)
  have inside: "block (seg_offset (sg2 ?sg)) (seg_size (sg2 ?sg)) \<subseteq> {uint headerSize ..< sint (fsize f)}"
    using region_sub_file [OF pl(2)] r2 by simp
  note g = seg_grow [OF pl(1) conjunct2 [OF True] inside nov]
  have ap: "region (sg0 ?sg) \<inter> region (sg1 ?sg) = {}" "region (sg0 ?sg) \<inter> region (sg2 ?sg) = {}"
    using wf by (simp_all add: file_wf_def seg_apart_iff)
  let ?s1 = "(sg1 ?sg)\<lparr>seg_size := seg_size (sg1 ?sg) + seg_size (sg2 ?sg)\<rparr>"
  let ?s2 = "(sg2 ?sg)\<lparr>seg_size := 0\<rparr>"
  have m: "m = ?sg\<lparr>sg1 := ?s1, sg2 := ?s2\<rparr>" using True by (simp add: m_def)
  have reg1: "region ?s1 = region (sg1 ?sg) \<union> region (sg2 ?sg)" using g r2 by simp
  have "seg_apart (sg0 ?sg) ?s1" using ap reg1 by (simp add: seg_apart_iff Int_Un_distrib)
  moreover have "seg_placed (fsize f) ?s1" using g by simp
  moreover have "seg_placed (fsize f) ?s2" "seg_apart (sg0 ?sg) ?s2" "seg_apart ?s1 ?s2"
    by (simp_all add: seg_placed_def seg_apart_def)
  ultimately have "file_wf (f\<lparr>segments := m\<rparr>)" using wf by (simp add: m file_wf_def)
  moreover have "free_space m = free_space ?sg" by (simp add: m free_space_def reg1 Un_assoc)
  ultimately show ?thesis by blast
next
  case False
  then have "m = segments f" by (auto simp: m_def)
  then show ?thesis using wf by simp
qed

text \<open>C8: _Segments.swap keeps the file well-formed and never marks a used byte as free: the free space after swap is contained in the free space before.\<close>

theorem seg_swap_safe:
  assumes wf: "file_wf f"
    and nov: "uint (seg_size (sg1 (segments f))) + uint (seg_size (sg2 (segments f))) < 2^32"
  shows "file_wf (f\<lparr>segments := seg_swap t (segments f)\<rparr>)
         \<and> free_space (seg_swap t (segments f)) \<subseteq> free_space (segments f)"
proof -
  obtain m where mdef: "m = (if seg_size (sg1 (segments f)) \<noteq> 0 \<and> seg_end (sg1 (segments f)) = seg_offset (sg2 (segments f))
                 then (segments f)\<lparr>sg1 := (sg1 (segments f))\<lparr>seg_size := seg_size (sg1 (segments f)) + seg_size (sg2 (segments f))\<rparr>,
                         sg2 := (sg2 (segments f))\<lparr>seg_size := 0\<rparr>\<rparr>
                 else segments f)" by blast
  have mm: "file_wf (f\<lparr>segments := m\<rparr>) \<and> free_space m = free_space (segments f)"
    using seg_swap_merge [OF wf nov] by (simp add: mdef)
  have sw: "seg_swap t (segments f) =
     (if t <s ucast (seg_size (sg0 m)) then \<lparr>sg0 = (sg0 m)\<lparr>seg_size := 0\<rparr>, sg1 = sg0 m, sg2 = sg1 m\<rparr> else m)"
    by (simp add: seg_swap_def mdef Let_def)
  show ?thesis
  proof (cases "t <s ucast (seg_size (sg0 m))")
    case True
    have wf': "file_wf (f\<lparr>segments := seg_swap t (segments f)\<rparr>)"
      using mm True unfolding file_wf_def by (simp add: sw seg_apart_def seg_placed_def)
    have "free_space (seg_swap t (segments f)) \<subseteq> free_space m"
      using True by (auto simp: sw free_space_def)
    with mm wf' show ?thesis by simp
  next
    case False
    with mm show ?thesis by (simp add: sw)
  qed
qed

text \<open>C35: When segment 2 does not touch segment 1 and the target size is below segment 0, swap overwrites segment 2 and its free bytes are lost from the free space (a concrete well-formed file).\<close>

theorem seg_swap_drops_segment2:
  "file_wf leaky_file \<and>
   free_space (seg_swap (targetSize leaky_file) (segments leaky_file))
     = free_space (segments leaky_file) - {150 ..< 170}"
proof -
  have "file_wf leaky_file"
    by (simp add: file_wf_def leaky_file_def seg_placed_def seg_apart_def headerSize_def)
  moreover have "seg_swap (targetSize leaky_file) (segments leaky_file) =
      \<lparr>sg0 = \<lparr>seg_offset = 47, seg_size = 0\<rparr>, sg1 = \<lparr>seg_offset = 47, seg_size = 10\<rparr>,
       sg2 = \<lparr>seg_offset = 100, seg_size = 10\<rparr>\<rparr>"
    by (simp add: seg_swap_def leaky_file_def seg_end_def word_sless_alt)
  moreover have "free_space (segments leaky_file) = {47 ..< 57} \<union> {100 ..< 110} \<union> {150 ..< 170}"
    by (simp add: free_space_def leaky_file_def region_def)
  ultimately show ?thesis by (auto simp: free_space_def region_def)
qed

theorem seg_free_refines_witness:
  "file_wf demo_file
   \<and> block 150 20 \<subseteq> {uint headerSize ..< sint (fsize demo_file)}
   \<and> block 150 20 \<inter> free_space (segments demo_file) = {}
   \<and> seg_free (segments demo_file) 150 20
       = (True, (segments demo_file)\<lparr>sg1 := \<lparr>seg_offset = 100, seg_size = 70\<rparr>\<rparr>)
   \<and> free_space ((segments demo_file)\<lparr>sg1 := \<lparr>seg_offset = 100, seg_size = 70\<rparr>\<rparr>)
       = free_space (segments demo_file) \<union> block 150 20"
proof -
  have wf: "file_wf demo_file"
    by (simp add: file_wf_def demo_file_def seg_placed_def seg_apart_def headerSize_def)
  have ins: "block 150 20 \<subseteq> {uint headerSize ..< sint (fsize demo_file)}"
    by (auto simp: block_def demo_file_def headerSize_def)
  have used: "block 150 20 \<inter> free_space (segments demo_file) = {}"
    by (auto simp: block_def demo_file_def free_space_def region_def)
  have n0: "uint (seg_size (sg0 (segments demo_file))) + uint (20::u32) < 2^32"
    and n1: "uint (seg_size (sg1 (segments demo_file))) + uint (20::u32) < 2^32"
    by (simp_all add: demo_file_def)
  have run: "seg_free (segments demo_file) 150 20
       = (True, (segments demo_file)\<lparr>sg1 := \<lparr>seg_offset = 100, seg_size = 70\<rparr>\<rparr>)"
    by (simp add: seg_free_def demo_file_def seg_end_def)
  show ?thesis using seg_free_refines [OF wf ins used n0 n1 run] wf ins used run by simp
qed

theorem seg_swap_safe_witness:
  "file_wf leaky_file
   \<and> uint (seg_size (sg1 (segments leaky_file))) + uint (seg_size (sg2 (segments leaky_file))) < 2^32
   \<and> free_space (seg_swap 5 (segments leaky_file)) \<subseteq> free_space (segments leaky_file)"
proof -
  have wf: "file_wf leaky_file"
    by (simp add: file_wf_def leaky_file_def seg_placed_def seg_apart_def headerSize_def)
  have nov: "uint (seg_size (sg1 (segments leaky_file))) + uint (seg_size (sg2 (segments leaky_file))) < 2^32"
    by (simp add: leaky_file_def)
  show ?thesis using seg_swap_safe [OF wf nov, of 5] wf nov by simp
qed

end
