(* ===== verification/LogHeader.thy ===== *)
theory LogHeader
  imports Segments
begin

text \<open>
  The two on-disk headers of the WAL (\<open>wal/header.go\<close>): the 28-byte log-info
  header \<open>_LogInfo\<close> in front of every group, and the 47-byte file header
  \<open>_Header\<close> (signature, version and the three free segments of
  \<open>Segments\<close>).  Both are little-endian.  The lemmas prove the two laws of a
  codec: decoding an encoded header gives it back (also with bytes after it), and
  every buffer that decodes is the encoding of what it decodes to, so the
  encoding is a bijection between headers and buffers of the fixed length.
  Unmarshalling a short buffer panics on the first out-of-range slice; that is
  the \<open>None\<close> branch.
\<close>

definition logHeaderSize :: nat where
  "logHeaderSize = 28"

text \<open>
  The \<open>LogStatus\<close> constants live in \<open>wal/wal.go\<close>, which is not in the
  sources; their values follow the order the specification gives them.
\<close>

definition logStatusWritten :: u16 where "logStatusWritten = 1"
definition logStatusApplied :: u16 where "logStatusApplied = 2"
definition logStatusReleased :: u16 where "logStatusReleased = 3"

record logInfo =
  li_version :: u16
  li_status :: u16
  li_timeID :: i64
  li_entryCount :: u32
  li_size :: u32
  li_offset :: i64

text \<open>\<open>binary.LittleEndian.UintN(data[lo:hi])\<close> on a slice known to be in range.\<close>

definition le_field :: "byte list \<Rightarrow> nat \<Rightarrow> nat \<Rightarrow> 'a::len word" where
  "le_field data lo hi = le_dec (take (hi - lo) (drop lo data))"

definition logInfo_marshal :: "logInfo \<Rightarrow> byte list" where
  "logInfo_marshal l =
     le_enc 2 (li_version l) @ le_enc 2 (li_status l) @ le_enc 8 (li_timeID l) @
     le_enc 4 (li_entryCount l) @ le_enc 4 (li_size l) @ le_enc 8 (li_offset l)"

definition logInfo_unmarshal :: "byte list \<Rightarrow> logInfo option" where
  "logInfo_unmarshal data =
     (if length data < logHeaderSize then None
      else Some \<lparr>li_version = le_field data 0 2, li_status = le_field data 2 4,
                 li_timeID = le_field data 4 12, li_entryCount = le_field data 12 16,
                 li_size = le_field data 16 20, li_offset = le_field data 20 28\<rparr>)"

definition signature :: "byte list" where
  "signature = [0x75, 0x6e, 0x69, 0x74, 0x64, 0x62, 0xfe]"

record header =
  h_signature :: "byte list"
  h_version :: u32
  h_segments :: segments

text \<open>\<open>copy(buf[:7], h.signature[:])\<close>: the seven signature bytes, zero-padded.\<close>

definition sig_bytes :: "byte list \<Rightarrow> byte list" where
  "sig_bytes s = take 7 (s @ replicate 7 0)"

definition seg_bytes :: "segment \<Rightarrow> byte list" where
  "seg_bytes s = le_enc 4 (seg_size s) @ le_enc 8 (seg_offset s)"

definition header_marshal :: "header \<Rightarrow> byte list" where
  "header_marshal h =
     sig_bytes (h_signature h) @ le_enc 4 (h_version h) @
     seg_bytes (sg0 (h_segments h)) @ seg_bytes (sg1 (h_segments h)) @ seg_bytes (sg2 (h_segments h))"

definition seg_field :: "byte list \<Rightarrow> nat \<Rightarrow> segment" where
  "seg_field data lo = \<lparr>seg_offset = le_field data (lo + 4) (lo + 12), seg_size = le_field data lo (lo + 4)\<rparr>"

definition header_unmarshal :: "byte list \<Rightarrow> header option" where
  "header_unmarshal data =
     (if length data < unat headerSize then None
      else Some \<lparr>h_signature = take 7 data, h_version = le_field data 7 11,
                 h_segments = \<lparr>sg0 = seg_field data 11, sg1 = seg_field data 23, sg2 = seg_field data 35\<rparr>\<rparr>)"

subsection \<open>Codec laws\<close>

lemma length_logInfo_marshal [simp]: "length (logInfo_marshal l) = logHeaderSize"
  by (simp add: logInfo_marshal_def logHeaderSize_def)

lemma length_seg_bytes [simp]: "length (seg_bytes s) = 12"
  by (simp add: seg_bytes_def)

lemma length_sig_bytes [simp]: "length (sig_bytes s) = 7"
  by (simp add: sig_bytes_def)

lemma length_header_marshal [simp]: "length (header_marshal h) = unat headerSize"
  by (simp add: header_marshal_def headerSize_def)

lemma le_field_append [simp]:
  "length xs \<le> lo \<Longrightarrow> le_field (xs @ ys) lo hi = le_field ys (lo - length xs) (hi - length xs)"
  by (simp add: le_field_def)

lemma le_field_enc [simp]:
  "LENGTH('a) = 8 * n \<Longrightarrow> le_field (le_enc n (w::'a::len word) @ ys) 0 n = w"
  by (simp add: le_field_def codec_simps)


lemma le_enc_field:
  "hi = lo + n \<Longrightarrow> hi \<le> length d \<Longrightarrow> 8 * n = LENGTH('a) \<Longrightarrow>
   le_enc n (le_field d lo hi :: 'a::len word) = take n (drop lo d)"
  by (simp add: le_field_def le_enc_le_dec)

lemma take_drop_join:
  "j = i + a \<Longrightarrow> take a (drop i d) @ take b (drop j d) = take (a + b) (drop i d)"
  by (simp add: take_add add.commute)

lemma take_join:
  "j = a \<Longrightarrow> take a d @ take b (drop j d) = take (a + b) d"
  by (simp add: take_add)


theorem logInfo_roundtrip: "logInfo_unmarshal (logInfo_marshal l @ rest) = Some l"
  by (simp add: logInfo_unmarshal_def logInfo_marshal_def logHeaderSize_def)

theorem header_roundtrip:
  "length (h_signature h) = 7 \<Longrightarrow> header_unmarshal (header_marshal h @ rest) = Some h"
  by (simp add: header_unmarshal_def header_marshal_def seg_field_def seg_bytes_def sig_bytes_def headerSize_def)
theorem logInfo_unmarshal_inv:
  assumes "logInfo_unmarshal d = Some l"
  shows "logInfo_marshal l = take logHeaderSize d"
proof -
  have len: "28 \<le> length d" and l: "l = \<lparr>li_version = le_field d 0 2, li_status = le_field d 2 4,
                 li_timeID = le_field d 4 12, li_entryCount = le_field d 12 16,
                 li_size = le_field d 16 20, li_offset = le_field d 20 28\<rparr>"
    using assms by (auto simp: logInfo_unmarshal_def logHeaderSize_def split: if_splits)
  have "logInfo_marshal l = take 2 (drop 0 d) @ take 2 (drop 2 d) @ take 8 (drop 4 d) @ take 4 (drop 12 d)
          @ take 4 (drop 16 d) @ take 8 (drop 20 d)"
    using len by (simp add: l logInfo_marshal_def le_enc_field)
  also have "\<dots> = take 28 (drop 0 d)"
    by (simp add: take_drop_join take_join)
  finally show ?thesis by (simp add: logHeaderSize_def)
qed
theorem header_unmarshal_inv:
  assumes "header_unmarshal d = Some h"
  shows "header_marshal h = take (unat headerSize) d"
proof -
  have len: "47 \<le> length d" and h: "h = \<lparr>h_signature = take 7 d, h_version = le_field d 7 11,
                 h_segments = \<lparr>sg0 = seg_field d 11, sg1 = seg_field d 23, sg2 = seg_field d 35\<rparr>\<rparr>"
    using assms by (auto simp: header_unmarshal_def headerSize_def split: if_splits)
  have "header_marshal h = take 7 d @ take 4 (drop 7 d) @ (take 4 (drop 11 d) @ take 8 (drop 15 d))
          @ (take 4 (drop 23 d) @ take 8 (drop 27 d)) @ (take 4 (drop 35 d) @ take 8 (drop 39 d))"
    using len by (simp add: h header_marshal_def sig_bytes_def seg_bytes_def seg_field_def le_enc_field)
  also have "\<dots> = take 47 d"
    by (simp add: take_drop_join take_join)
  finally show ?thesis by (simp add: headerSize_def)
qed

theorem logInfo_unmarshal_inv_witness:
  "logInfo_unmarshal (replicate 28 (7::byte)) \<noteq> None
   \<and> logInfo_marshal (the (logInfo_unmarshal (replicate 28 7))) = take logHeaderSize (replicate 28 (7::byte))"
proof -
  have d: "logInfo_unmarshal (replicate 28 (7::byte)) = Some (the (logInfo_unmarshal (replicate 28 7)))"
    by (simp add: logInfo_unmarshal_def logHeaderSize_def)
  have "logInfo_unmarshal (replicate 28 (7::byte)) \<noteq> None" using d by (metis option.distinct(1))
  with logInfo_unmarshal_inv [OF d] show ?thesis by blast
qed

theorem header_roundtrip_witness:
  "length (h_signature \<lparr>h_signature = signature, h_version = 1, h_segments = newSegments\<rparr>) = 7
   \<and> header_unmarshal (header_marshal \<lparr>h_signature = signature, h_version = 1, h_segments = newSegments\<rparr> @ [0])
     = Some \<lparr>h_signature = signature, h_version = 1, h_segments = newSegments\<rparr>"
proof -
  have s: "length (h_signature \<lparr>h_signature = signature, h_version = 1, h_segments = newSegments\<rparr>) = 7"
    by (simp add: signature_def)
  show ?thesis using header_roundtrip [OF s, of "[0]"] s by simp
qed

theorem header_unmarshal_inv_witness:
  "header_unmarshal (replicate 47 (7::byte)) \<noteq> None
   \<and> header_marshal (the (header_unmarshal (replicate 47 7))) = take (unat headerSize) (replicate 47 (7::byte))"
proof -
  have d: "header_unmarshal (replicate 47 (7::byte)) = Some (the (header_unmarshal (replicate 47 7)))"
    by (simp add: header_unmarshal_def headerSize_def)
  have "header_unmarshal (replicate 47 (7::byte)) \<noteq> None" using d by (metis option.distinct(1))
  with header_unmarshal_inv [OF d] show ?thesis by blast
qed

end
