(* ===== verification/WalReader.thy ===== *)
theory WalReader
  imports LogHeader
begin

text \<open>
  The WAL reader (\<open>wal/reader.go\<close>).  \<open>Reader.Next\<close> walks the records of one
  group: each record is a frame \<open>| u32 dataLen | bytes[dataLen-4] |\<close>, the length
  counting its own four bytes.  The writer side (\<open>Writer.Append\<close>, in
  \<open>wal/writer.go\<close>, not in the sources) is modelled from the specification as
  the concatenation of \<open>frame\<close>s.  The round-trip theorem says that the reader
  returns exactly the payloads the writer framed, in order.
\<close>

record reader =
  r_logData :: "byte list"
  r_offset :: i64
  r_entryCount :: u32

text \<open>
  \<open>Reader.Next\<close>.  The entry count is decremented before the frame is read, so
  the error branches return the decremented reader.  \<open>logData[r.offset:]\<close>,
  \<open>logData[0:4]\<close> and \<open>logData[4:dataLen]\<close> panic when out of range.
\<close>

definition reader_next :: "reader \<Rightarrow> (go_error + byte list option) \<times> reader" where
  "reader_next r =
     (if r_entryCount r = 0 then (Inr None, r)
      else
        let r1 = r\<lparr>r_entryCount := r_entryCount r - 1\<rparr> in
        if sint (r_offset r) < 0 \<or> length (r_logData r) < nat (sint (r_offset r))
        then (Inl (Panic ''slice bounds out of range''), r1)
        else
          let ld = drop (nat (sint (r_offset r))) (r_logData r) in
          if length ld < 4 then (Inl (Panic ''slice bounds out of range''), r1)
          else
            let dataLen = (le_dec (take 4 ld) :: u32) in
            if (word_of_nat (length ld) :: u32) < dataLen then (Inl (GoErr ''logData error''), r1)
            else
              let r2 = r1\<lparr>r_offset := r_offset r + ucast dataLen\<rparr> in
              (case go_slice ld 4 (unat dataLen) of
                 None \<Rightarrow> (Inl (Panic ''slice bounds out of range''), r2)
               | Some d \<Rightarrow> (Inr (Some d), r2)))"

text \<open>
  \<open>WAL.NewReader\<close>: when the WAL is not usable (\<open>wal.ok()\<close> fails) the
  reader is returned with the error; otherwise a fresh reader (the log ID and
  the pooled buffer are not modelled).  \<open>Reader.Count\<close> is the entry count
  left in the current log.
\<close>

definition newReader :: "go_error option \<Rightarrow> reader \<times> go_error option" where
  "newReader walErr =
     (case walErr of
        Some e \<Rightarrow> (\<lparr>r_logData = [], r_offset = 0, r_entryCount = 0\<rparr>, Some e)
      | None \<Rightarrow> (\<lparr>r_logData = [], r_offset = 0, r_entryCount = 0\<rparr>, None))"

definition reader_count :: "reader \<Rightarrow> u32" where
  "reader_count r = r_entryCount r"

text \<open>
  The recovery loop of \<open>memdb.DB.startRecover\<close> (\<open>for i < r.Count()\<close>: call
  \<open>Next\<close>, return on error, stop when it reports no more records).
\<close>

fun read_entries :: "nat \<Rightarrow> reader \<Rightarrow> go_error + (byte list list \<times> reader)" where
  "read_entries 0 r = Inr ([], r)"
| "read_entries (Suc n) r =
     (case reader_next r of
        (Inl e, _) \<Rightarrow> Inl e
      | (Inr None, r') \<Rightarrow> Inr ([], r')
      | (Inr (Some d), r') \<Rightarrow>
          (case read_entries n r' of Inl e \<Rightarrow> Inl e | Inr (ds, r'') \<Rightarrow> Inr (d # ds, r'')))"

text \<open>The body of a group as the writer lays it out: one frame per appended payload.\<close>

definition group_body :: "byte list list \<Rightarrow> byte list" where
  "group_body ps = concat (map frame ps)"

text \<open>
  The first loop of \<open>Reader.Read\<close> removes released logs from
  \<open>recoveredLogs\<close> in place: on a released log it shifts the tail down
  (\<open>copy\<close>), shortens the slice and the bound \<open>l\<close>, and steps \<open>i\<close> back so
  that the same index is examined again.
\<close>

function release_loop :: "logInfo list \<Rightarrow> nat \<Rightarrow> nat \<Rightarrow> logInfo list" where
  "release_loop logs i l =
     (if i < l then
        (if li_status (logs ! i) = logStatusReleased
         then release_loop (take i logs @ drop (Suc i) logs) i (l - 1)
         else release_loop logs (Suc i) l)
      else logs)"
  by pat_completeness auto
termination
  by (relation "measure (\<lambda>(logs, i, l). l - i)") auto

definition read_release :: "logInfo list \<Rightarrow> logInfo list" where
  "read_release logs = release_loop logs 0 (length logs)"

subsection \<open>Round trip\<close>

text \<open>
  Each call of \<open>Next\<close> on a reader with entries left lowers \<open>Count\<close> by one,
  whatever it returns, so a loop of \<open>Count()\<close> calls stops; on an exhausted
  reader it reports the end and changes nothing.
\<close>

lemma reader_next_count:
  "reader_count r \<noteq> 0 \<Longrightarrow> reader_count (snd (reader_next r)) = reader_count r - 1"
  by (simp add: reader_count_def reader_next_def Let_def split: option.split)

lemma reader_next_exhausted: "reader_count r = 0 \<Longrightarrow> reader_next r = (Inr None, r)"
  by (simp add: reader_count_def reader_next_def)

lemma newReader_empty: "reader_next (fst (newReader walErr)) = (Inr None, fst (newReader walErr))"
  by (simp add: newReader_def reader_next_def split: option.split)


lemma frame_prefix: "take 4 (frame p @ rest) = le_enc 4 (word_of_nat (length p + 4) :: u32)"
  by (simp add: frame_def)

lemma reader_next_at:
  assumes c: "c \<noteq> 0" and o: "0 \<le> sint off" "nat (sint off) \<le> length d"
    and ld: "drop (nat (sint off)) d = ld" and l4: "4 \<le> length ld"
    and dl: "le_dec (take 4 ld) = D" and nl: "\<not> (word_of_nat (length ld) :: u32) < D"
    and d4: "4 \<le> unat D" "unat D \<le> length ld"
  shows "reader_next \<lparr>r_logData = d, r_offset = off, r_entryCount = c\<rparr>
       = (Inr (Some (take (unat D - 4) (drop 4 ld))), \<lparr>r_logData = d, r_offset = off + ucast D, r_entryCount = c - 1\<rparr>)"
  using assms by (simp add: reader_next_def Let_def)

lemma reader_next_frame:
  assumes c: "c \<noteq> 0" and len: "length (pre @ frame p @ rest) < 2^32"
  shows "reader_next \<lparr>r_logData = pre @ frame p @ rest, r_offset = word_of_nat (length pre), r_entryCount = c\<rparr>
       = (Inr (Some p), \<lparr>r_logData = pre @ frame p @ rest,
                         r_offset = word_of_nat (length pre + (length p + 4)), r_entryCount = c - 1\<rparr>)"
proof -
  have k1: "length (frame p @ rest) < 2^32" and k2: "length p + 4 < 2^32" using len by simp_all
  have so: "sint (word_of_nat (length pre) :: i64) = int (length pre)"
    using len by (intro sint_of_nat_i64) simp
  have dl: "(le_dec (take 4 (frame p @ rest)) :: u32) = word_of_nat (length p + 4)"
    by (simp only: frame_prefix) (simp add: le_dec_le_enc)
  have ul: "unat (word_of_nat (length p + 4) :: u32) = length p + 4"
    by (rule unat_u32_of_nat [OF k2])
  have nl: "\<not> (word_of_nat (length (frame p @ rest)) :: u32) < word_of_nat (length p + 4)"
    by (simp only: word_less_nat_alt unat_u32_of_nat [OF k1] unat_u32_of_nat [OF k2]) simp
  have off: "word_of_nat (length pre) + ucast (word_of_nat (length p + 4) :: u32) =
             (word_of_nat (length pre + (length p + 4)) :: i64)"
    by (subst ucast_u32_of_nat [OF k2]) (simp only: of_nat_add)
  have ld: "drop (nat (sint (word_of_nat (length pre) :: i64))) (pre @ frame p @ rest) = frame p @ rest"
    by (simp add: so)
  have r: "reader_next \<lparr>r_logData = pre @ frame p @ rest, r_offset = word_of_nat (length pre), r_entryCount = c\<rparr>
       = (Inr (Some (take (unat (word_of_nat (length p + 4) :: u32) - 4) (drop 4 (frame p @ rest)))),
          \<lparr>r_logData = pre @ frame p @ rest,
           r_offset = word_of_nat (length pre) + ucast (word_of_nat (length p + 4) :: u32), r_entryCount = c - 1\<rparr>)"
    by (rule reader_next_at [OF c _ _ ld _ dl nl]) (simp_all only: so ul, simp_all)
  have pl: "take (unat (word_of_nat (length p + 4) :: u32) - 4) (drop 4 (frame p @ rest)) = p"
    by (simp only: ul) (simp add: frame_def)
  show ?thesis by (simp only: r pl off)
qed

lemma read_entries_frames:
  assumes "length (pre @ group_body ps @ rest) < 2^32" and "length ps \<le> unat c"
  shows "read_entries (length ps) \<lparr>r_logData = pre @ group_body ps @ rest, r_offset = word_of_nat (length pre), r_entryCount = c\<rparr>
       = Inr (ps, \<lparr>r_logData = pre @ group_body ps @ rest,
                   r_offset = word_of_nat (length pre + length (group_body ps)),
                   r_entryCount = c - word_of_nat (length ps)\<rparr>)"
  using assms
proof (induction ps arbitrary: pre c)
  case Nil
  then show ?case by (simp add: group_body_def)
next
  case (Cons p ps)
  have c: "c \<noteq> 0" using Cons.prems(2) by auto
  have eq: "pre @ group_body (p # ps) @ rest = pre @ frame p @ (group_body ps @ rest)"
    by (simp add: group_body_def)
  have step: "reader_next \<lparr>r_logData = pre @ group_body (p # ps) @ rest, r_offset = word_of_nat (length pre), r_entryCount = c\<rparr>
       = (Inr (Some p), \<lparr>r_logData = (pre @ frame p) @ group_body ps @ rest,
                         r_offset = word_of_nat (length (pre @ frame p)), r_entryCount = c - 1\<rparr>)"
    using reader_next_frame [OF c, of pre p "group_body ps @ rest"] Cons.prems(1) by (simp add: eq)
  have c1: "length ps \<le> unat (c - 1)"
    using Cons.prems(2) c by (simp add: unat_minus_one)
  have IH: "read_entries (length ps) \<lparr>r_logData = (pre @ frame p) @ group_body ps @ rest,
              r_offset = word_of_nat (length (pre @ frame p)), r_entryCount = c - 1\<rparr>
       = Inr (ps, \<lparr>r_logData = (pre @ frame p) @ group_body ps @ rest,
                   r_offset = word_of_nat (length (pre @ frame p) + length (group_body ps)),
                   r_entryCount = (c - 1) - word_of_nat (length ps)\<rparr>)"
    using Cons.IH [of "pre @ frame p" "c - 1"] Cons.prems(1) c1 by (simp add: group_body_def)
  show ?case
    using step IH by (simp add: group_body_def algebra_simps)
qed

lemma length_group_body: "length (group_body ps) = sum_list (map length ps) + 4 * length ps"
  by (induction ps) (simp_all add: group_body_def)

text \<open>C4: Reading a WAL group whose body is the writer's frames of payloads ps with Reader.Next, Count times as startRecover does, returns exactly ps in order and leaves the reader at the end of the body with count 0 (bodies below 4 GiB).\<close>

theorem wal_group_roundtrip:
  assumes "length (group_body ps) < 2^32"
  shows "read_entries (length ps) \<lparr>r_logData = group_body ps, r_offset = 0, r_entryCount = word_of_nat (length ps)\<rparr>
       = Inr (ps, \<lparr>r_logData = group_body ps, r_offset = word_of_nat (length (group_body ps)), r_entryCount = 0\<rparr>)"
proof -
  have "length ps < 2^32" using assms length_group_body [of ps] by linarith
  then have c: "length ps \<le> unat (word_of_nat (length ps) :: u32)" by (simp add: unat_u32_of_nat)
  show ?thesis using read_entries_frames [of "[]" ps "[]", OF _ c] assms by simp
qed

theorem wal_group_roundtrip_witness:
  "length (group_body [[1, 2], [3 :: byte]]) < 2^32
   \<and> read_entries 2 \<lparr>r_logData = group_body [[1, 2], [3]], r_offset = 0, r_entryCount = 2\<rparr>
       = Inr ([[1, 2], [3]], \<lparr>r_logData = group_body [[1, 2], [3]], r_offset = 11, r_entryCount = 0\<rparr>)"
proof -
  have h: "length (group_body [[1, 2], [3 :: byte]]) < 2^32" by (simp add: group_body_def)
  show ?thesis using wal_group_roundtrip [OF h] h
    by (simp add: group_body_def numeral_2_eq_2 del: read_entries.simps)
qed

theorem reader_next_torn_record:
  assumes c: "c \<noteq> 0" and o: "nat (sint off) \<le> length d" "0 \<le> sint off"
    and l4: "4 \<le> length (drop (nat (sint off)) d)"
    and torn: "length (drop (nat (sint off)) d) < unat (le_dec (take 4 (drop (nat (sint off)) d)) :: u32)"
  shows "fst (reader_next \<lparr>r_logData = d, r_offset = off, r_entryCount = c\<rparr>) = Inl (GoErr ''logData error'')"
proof -
  have "unat (le_dec (take 4 (drop (nat (sint off)) d)) :: u32) < 2 ^ LENGTH(32)" by (rule unsigned_less)
  then have "length (drop (nat (sint off)) d) < 2^32" using torn by simp
  then have "(word_of_nat (length (drop (nat (sint off)) d)) :: u32) < le_dec (take 4 (drop (nat (sint off)) d))"
    using torn by (simp add: word_less_nat_alt unat_u32_of_nat)
  then show ?thesis using c o l4 by (simp add: reader_next_def Let_def del: length_drop)
qed

theorem reader_next_torn_record_witness:
  "(1::u32) \<noteq> 0 \<and> nat (sint (0::i64)) \<le> length [9, 0, 0, 0, 1 :: byte] \<and> 0 \<le> sint (0::i64)
   \<and> 4 \<le> length (drop (nat (sint (0::i64))) [9, 0, 0, 0, 1 :: byte])
   \<and> length (drop (nat (sint (0::i64))) [9, 0, 0, 0, 1 :: byte])
       < unat (le_dec (take 4 (drop (nat (sint (0::i64))) [9, 0, 0, 0, 1 :: byte])) :: u32)
   \<and> fst (reader_next \<lparr>r_logData = [9, 0, 0, 0, 1], r_offset = 0, r_entryCount = 1\<rparr>) = Inl (GoErr ''logData error'')"
proof -
  have h: "(1::u32) \<noteq> 0" "nat (sint (0::i64)) \<le> length [9, 0, 0, 0, 1 :: byte]" "0 \<le> sint (0::i64)"
    "4 \<le> length (drop (nat (sint (0::i64))) [9, 0, 0, 0, 1 :: byte])"
    "length (drop (nat (sint (0::i64))) [9, 0, 0, 0, 1 :: byte])
       < unat (le_dec (take 4 (drop (nat (sint (0::i64))) [9, 0, 0, 0, 1 :: byte])) :: u32)"
    by simp_all
  show ?thesis using reader_next_torn_record [OF h] h by simp
qed

text \<open>C25: For every reader with entries left whose record at the current offset has a 4-byte length prefix below 4 (inside a log below 4 GiB), Reader.Next advances the offset by that length and then panics on the slice logData[4:dataLen] instead of returning an error.\<close>

theorem reader_next_short_length_panics:
  assumes "r_entryCount r \<noteq> 0" "0 \<le> sint (r_offset r)" "nat (sint (r_offset r)) + 4 \<le> length (r_logData r)"
    and "length (r_logData r) < 2^32"
    and "unat (le_dec (take 4 (drop (nat (sint (r_offset r))) (r_logData r))) :: u32) < 4"
  shows "reader_next r = (Inl (Panic ''slice bounds out of range''),
           r\<lparr>r_entryCount := r_entryCount r - 1,
             r_offset := r_offset r + ucast (le_dec (take 4 (drop (nat (sint (r_offset r))) (r_logData r))) :: u32)\<rparr>)"
proof -
  let ?ld = "drop (nat (sint (r_offset r))) (r_logData r)"
  let ?dl = "le_dec (take 4 ?ld) :: u32"
  have l: "length ?ld < 2^32" "4 \<le> length ?ld" using assms(3,4) by simp_all
  have "unat (word_of_nat (length ?ld) :: u32) = length ?ld" using l(1) by (simp add: unsigned_of_nat take_bit_nat_eq_self)
  then have nl: "\<not> (word_of_nat (length ?ld) :: u32) < ?dl" using l(2) assms(5) by (simp add: word_less_nat_alt)
  have "go_slice ?ld 4 (unat ?dl) = None" using assms(5) by (simp add: go_slice_def)
  then show ?thesis using assms(1,2) l(2) nl by (simp add: reader_next_def Let_def)
qed

declare release_loop.simps [simp del]

lemma release_loop_filter:
  "i \<le> l \<Longrightarrow> l = length logs \<Longrightarrow>
   release_loop logs i l = take i logs @ filter (\<lambda>x. li_status x \<noteq> logStatusReleased) (drop i logs)"
proof (induction logs i l rule: release_loop.induct)
  case (1 logs i l)
  show ?case
  proof (cases "i < l")
    case False
    then have "release_loop logs i l = logs" by (simp add: release_loop.simps [of logs i l])
    with False "1.prems" show ?thesis by simp
  next
    case True
    then have d: "drop i logs = logs ! i # drop (Suc i) logs"
      using "1.prems" by (simp add: Cons_nth_drop_Suc)
    show ?thesis
    proof (cases "li_status (logs ! i) = logStatusReleased")
      case rel: True
      have "release_loop (take i logs @ drop (Suc i) logs) i (l - 1)
            = take i logs @ filter (\<lambda>x. li_status x \<noteq> logStatusReleased) (drop (Suc i) logs)"
        using "1.IH"(1) [OF True rel] True "1.prems" by (simp add: min_def)
      moreover have "release_loop logs i l = release_loop (take i logs @ drop (Suc i) logs) i (l - 1)"
        using True rel by (simp add: release_loop.simps [of logs i l])
      ultimately show ?thesis using rel d by simp
    next
      case keep: False
      have "release_loop logs (Suc i) l
            = take (Suc i) logs @ filter (\<lambda>x. li_status x \<noteq> logStatusReleased) (drop (Suc i) logs)"
        using "1.IH"(2) [OF True keep] True "1.prems" by simp
      moreover have "release_loop logs i l = release_loop logs (Suc i) l"
        using True keep by (simp add: release_loop.simps [of logs i l])
      ultimately show ?thesis using True keep d "1.prems" by (simp add: take_Suc_conv_app_nth)
    qed
  qed
qed

text \<open>C24: The in-place removal loop at the start of Reader.Read (copy, shorten, step back) computes exactly the list of recovered logs whose status is not RELEASED, in their order.\<close>

theorem read_release_filter:
  "read_release logs = filter (\<lambda>x. li_status x \<noteq> logStatusReleased) logs"
  by (simp add: read_release_def release_loop_filter)

theorem reader_next_short_length_panics_witness:
  "r_entryCount \<lparr>r_logData = [2, 0, 0, 0, 7], r_offset = 0, r_entryCount = 1\<rparr> \<noteq> 0
   \<and> 0 \<le> sint (r_offset \<lparr>r_logData = [2, 0, 0, 0, 7 :: byte], r_offset = 0, r_entryCount = 1\<rparr>)
   \<and> nat (sint (r_offset \<lparr>r_logData = [2, 0, 0, 0, 7 :: byte], r_offset = 0, r_entryCount = 1\<rparr>)) + 4
       \<le> length (r_logData \<lparr>r_logData = [2, 0, 0, 0, 7 :: byte], r_offset = 0, r_entryCount = 1\<rparr>)
   \<and> length (r_logData \<lparr>r_logData = [2, 0, 0, 0, 7 :: byte], r_offset = 0, r_entryCount = 1\<rparr>) < 2^32
   \<and> unat (le_dec (take 4 (drop (nat (sint (r_offset \<lparr>r_logData = [2, 0, 0, 0, 7 :: byte], r_offset = 0, r_entryCount = 1\<rparr>)))
        (r_logData \<lparr>r_logData = [2, 0, 0, 0, 7 :: byte], r_offset = 0, r_entryCount = 1\<rparr>))) :: u32) < 4
   \<and> reader_next \<lparr>r_logData = [2, 0, 0, 0, 7], r_offset = 0, r_entryCount = 1\<rparr>
       = (Inl (Panic ''slice bounds out of range''), \<lparr>r_logData = [2, 0, 0, 0, 7], r_offset = 2, r_entryCount = 0\<rparr>)"
proof -
  have h: "r_entryCount \<lparr>r_logData = [2, 0, 0, 0, 7], r_offset = 0, r_entryCount = 1\<rparr> \<noteq> 0"
    "0 \<le> sint (r_offset \<lparr>r_logData = [2, 0, 0, 0, 7 :: byte], r_offset = 0, r_entryCount = 1\<rparr>)"
    "nat (sint (r_offset \<lparr>r_logData = [2, 0, 0, 0, 7 :: byte], r_offset = 0, r_entryCount = 1\<rparr>)) + 4
       \<le> length (r_logData \<lparr>r_logData = [2, 0, 0, 0, 7 :: byte], r_offset = 0, r_entryCount = 1\<rparr>)"
    "length (r_logData \<lparr>r_logData = [2, 0, 0, 0, 7 :: byte], r_offset = 0, r_entryCount = 1\<rparr>) < 2^32"
    "unat (le_dec (take 4 (drop (nat (sint (r_offset \<lparr>r_logData = [2, 0, 0, 0, 7 :: byte], r_offset = 0, r_entryCount = 1\<rparr>)))
        (r_logData \<lparr>r_logData = [2, 0, 0, 0, 7 :: byte], r_offset = 0, r_entryCount = 1\<rparr>))) :: u32) < 4"
    by simp_all
  have c: "reader_next \<lparr>r_logData = [2, 0, 0, 0, 7], r_offset = 0, r_entryCount = 1\<rparr>
       = (Inl (Panic ''slice bounds out of range''), \<lparr>r_logData = [2, 0, 0, 0, 7], r_offset = 2, r_entryCount = 0\<rparr>)"
    by (subst reader_next_short_length_panics [OF h]) simp
  show ?thesis by (intro conjI h c)
qed

end
