(* ===== verification/TimeMark.thy ===== *)
theory TimeMark
  imports Prelude
begin

text \<open>
  The Time-Mark ledger of the memdb (\<open>memdb/timemark.go\<close>).  It keeps a map of
  live TimeIDs with reference counts (\<open>records\<close>), a map of released or
  aborted TimeIDs (\<open>releasedRecords\<close>, reference count 0 or the sentinel -1),
  and the current time record whose \<open>lastUnref\<close> stamps every release.  The
  wall clock is an input of the operations that read it (\<open>now\<close> is
  \<open>time.Now().UTC().UnixNano()\<close>).  Every method takes the ledger's lock, so the
  methods are atomic steps; \<open>tm_step\<close> applies one of them and \<open>tm_run\<close> a
  sequence.  The lemmas give the invariant on reference counts, the release
  protocol (released only after the count drops to zero and the time record has
  moved on, and then stable), and three divergences from the specification:
  \<open>add\<close> resets the count to 1 instead of incrementing it, \<open>abort\<close> revokes
  a release, and the expirer compares a Unix time with the sub-second part of the
  clock, so it never evicts a record stamped after the first second of 1970.
\<close>

type_synonym timeID = i64

record timeRecord =
  refs :: int
  lastUnref :: timeID

record timeMark =
  durations :: i64
  timeRecord :: timeRecord
  records :: "timeID \<rightharpoonup> timeRecord"
  releasedRecords :: "timeID \<rightharpoonup> timeRecord"

text \<open>\<open>Time.Nanosecond()\<close>: the offset within the second, in \<open>[0, 10^9)\<close>.\<close>

definition nanosecond :: "i64 \<Rightarrow> i64" where
  "nanosecond now = word_of_int (sint now mod 1000000000)"

definition newTimeMark :: "i64 \<Rightarrow> i64 \<Rightarrow> timeMark" where
  "newTimeMark expiry now =
     \<lparr>durations = expiry, timeRecord = \<lparr>refs = 0, lastUnref = now\<rparr>,
      records = Map.empty, releasedRecords = Map.empty\<rparr>"

definition isExpired :: "timeRecord \<Rightarrow> i64 \<Rightarrow> i64 \<Rightarrow> bool" where
  "isExpired r expDur now \<longleftrightarrow> 0 <s lastUnref r \<and> lastUnref r + expDur \<le>s nanosecond now"

definition tr_isReleased :: "timeRecord \<Rightarrow> timeID \<Rightarrow> bool" where
  "tr_isReleased r lu \<longleftrightarrow> 0 <s lastUnref r \<and> lastUnref r <s lu"

definition newTimeRecord :: "i64 \<Rightarrow> timeMark \<Rightarrow> timeMark" where
  "newTimeRecord now tm = tm\<lparr>timeRecord := \<lparr>refs = 0, lastUnref = now\<rparr>\<rparr>"

text \<open>
  \<open>add\<close>: the code increments the count of a copy (\<open>r.refs++\<close> on the value
  read from the map) and then stores a fresh record with count 1.
\<close>

definition add :: "timeID \<Rightarrow> timeMark \<Rightarrow> timeMark" where
  "add t tm = tm\<lparr>records := (records tm)(t \<mapsto> \<lparr>refs = 1, lastUnref = 0\<rparr>)\<rparr>"

definition newTimeID :: "i64 \<Rightarrow> timeMark \<Rightarrow> timeID \<times> timeMark" where
  "newTimeID now tm = (now, add now tm)"

definition release :: "timeID \<Rightarrow> timeMark \<Rightarrow> timeMark" where
  "release t tm =
     (case records tm t of
        None \<Rightarrow> tm
      | Some r \<Rightarrow>
          let r' = r\<lparr>refs := refs r - 1\<rparr> in
          if 0 < refs r' then tm\<lparr>records := (records tm)(t \<mapsto> r')\<rparr>
          else tm\<lparr>records := (records tm)(t := None),
                  releasedRecords := (releasedRecords tm)(t \<mapsto> r'\<lparr>lastUnref := lastUnref (timeRecord tm)\<rparr>)\<rparr>)"

definition isReleased :: "timeID \<Rightarrow> timeMark \<Rightarrow> bool" where
  "isReleased t tm =
     (case releasedRecords tm t of
        None \<Rightarrow> False
      | Some r \<Rightarrow> if refs r = -1 then False else tr_isReleased r (lastUnref (timeRecord tm)))"

definition isAborted :: "timeID \<Rightarrow> timeMark \<Rightarrow> bool" where
  "isAborted t tm = (case releasedRecords tm t of None \<Rightarrow> False | Some r \<Rightarrow> refs r = -1)"

definition abort :: "timeID \<Rightarrow> timeMark \<Rightarrow> timeMark" where
  "abort t tm =
     tm\<lparr>records := (records tm)(t := None),
        releasedRecords := (releasedRecords tm)(t \<mapsto> \<lparr>refs = -1, lastUnref = lastUnref (timeRecord tm)\<rparr>)\<rparr>"

text \<open>\<open>startExpirer\<close>: one pass over \<open>releasedRecords\<close>, deleting expired entries.\<close>

definition startExpirer :: "i64 \<Rightarrow> timeMark \<Rightarrow> timeMark" where
  "startExpirer now tm =
     tm\<lparr>releasedRecords := (\<lambda>t. case releasedRecords tm t of
          None \<Rightarrow> None
        | Some r \<Rightarrow> if isExpired r (durations tm) now then None else Some r)\<rparr>"

subsection \<open>Operations as steps\<close>

datatype tm_op =
    NewTimeRecord i64
  | NewTimeID i64
  | Add timeID
  | Release timeID
  | Abort timeID
  | StartExpirer i64

fun tm_step :: "tm_op \<Rightarrow> timeMark \<Rightarrow> timeMark" where
  "tm_step (NewTimeRecord now) tm = newTimeRecord now tm"
| "tm_step (NewTimeID now) tm = snd (newTimeID now tm)"
| "tm_step (Add t) tm = add t tm"
| "tm_step (Release t) tm = release t tm"
| "tm_step (Abort t) tm = abort t tm"
| "tm_step (StartExpirer now) tm = startExpirer now tm"

fun tm_run :: "tm_op list \<Rightarrow> timeMark \<Rightarrow> timeMark" where
  "tm_run [] tm = tm"
| "tm_run (op # ops) tm = tm_run ops (tm_step op tm)"

text \<open>
  The invariant: a live record holds at least one reference; a released record
  holds none, or the abort sentinel.
\<close>

definition tm_inv :: "timeMark \<Rightarrow> bool" where
  "tm_inv tm \<longleftrightarrow> (\<forall>r \<in> ran (records tm). 1 \<le> refs r) \<and>
     (\<forall>r \<in> ran (releasedRecords tm). refs r = 0 \<or> refs r = -1)"

text \<open>A step whose clock reading is not earlier than the current time record.\<close>

fun clock_ok :: "tm_op \<Rightarrow> timeMark \<Rightarrow> bool" where
  "clock_ok (NewTimeRecord now) tm = (lastUnref (timeRecord tm) \<le>s now)"
| "clock_ok _ tm = True"

text \<open>A ledger in which TimeID 5 was added, released and then overtaken by a new time record.\<close>

definition tm_demo :: timeMark where
  "tm_demo = newTimeRecord 20 (release 5 (add 5 (newTimeMark 0 10)))"

subsection \<open>Invariant and release protocol\<close>

lemma ran_upd_all: "\<forall>r \<in> ran m. P r \<Longrightarrow> P v \<Longrightarrow> \<forall>r \<in> ran (m(k \<mapsto> v)). P r"
  by (auto simp: ran_def)

lemma ran_del_all: "\<forall>r \<in> ran m. P r \<Longrightarrow> \<forall>r \<in> ran (m(k := None)). P r"
  by (auto simp: ran_def)

lemma ran_upd_mem: "x \<in> ran (m(k \<mapsto> v)) \<Longrightarrow> x = v \<or> x \<in> ran m"
  by (auto simp: ran_def split: if_splits)

lemma ran_del_mem: "x \<in> ran (m(k := None)) \<Longrightarrow> x \<in> ran m"
  by (auto simp: ran_def split: if_splits)

lemma tm_step_inv: "tm_inv tm \<Longrightarrow> tm_inv (tm_step op tm)"
proof (cases op)
  case (Release t)
  assume inv: "tm_inv tm"
  show ?thesis
  proof (cases "records tm t")
    case None
    with inv Release show ?thesis by (simp add: release_def)
  next
    case (Some r)
    then have r1: "1 \<le> refs r" using inv by (auto simp: tm_inv_def ran_def)
    have i1: "\<forall>x \<in> ran (records tm). 1 \<le> refs x" and i2: "\<forall>x \<in> ran (releasedRecords tm). refs x = 0 \<or> refs x = -1"
      using inv by (simp_all add: tm_inv_def)
    show ?thesis
    proof (cases "1 < refs r")
      case True
      have "\<forall>x \<in> ran ((records tm)(t \<mapsto> r\<lparr>refs := refs r - 1\<rparr>)). 1 \<le> refs x"
        using True by (intro ran_upd_all [OF i1]) simp
      with i2 True Some Release show ?thesis by (simp add: release_def tm_inv_def)
    next
      case False
      with r1 have "refs r = 1" by simp
      have "\<forall>x \<in> ran ((releasedRecords tm)(t \<mapsto> r\<lparr>refs := 0, lastUnref := lastUnref (timeRecord tm)\<rparr>)).
              refs x = 0 \<or> refs x = -1"
        by (intro ran_upd_all [OF i2]) simp
      moreover have "\<forall>x \<in> ran ((records tm)(t := None)). 1 \<le> refs x" by (rule ran_del_all [OF i1])
      ultimately show ?thesis using \<open>refs r = 1\<close> Some Release by (simp add: release_def tm_inv_def)
    qed
  qed
next
  case (StartExpirer now)
  assume inv: "tm_inv tm"
  have "ran (releasedRecords (startExpirer now tm)) \<subseteq> ran (releasedRecords tm)"
    by (auto simp: startExpirer_def ran_def split: option.splits if_splits)
  with inv StartExpirer show ?thesis by (auto simp: tm_inv_def startExpirer_def)
qed (auto simp: tm_inv_def newTimeRecord_def newTimeID_def add_def abort_def dest!: ran_upd_mem ran_del_mem)

text \<open>C14: Every run of Time-Mark operations (newTimeRecord, newTimeID, add, release, abort, startExpirer) keeps the invariant that live records hold at least one reference and released records hold 0 or the abort sentinel -1.\<close>

theorem tm_run_inv: "tm_inv tm \<Longrightarrow> tm_inv (tm_run ops tm)"
  by (induction ops arbitrary: tm) (simp_all add: tm_step_inv)

theorem add_twice_release_once:
  "records (tm_run [Add t, Add t, Release t] tm) t = None
   \<and> releasedRecords (tm_run [Add t, Add t, Release t] tm) t = Some \<lparr>refs = 0, lastUnref = lastUnref (timeRecord tm)\<rparr>"
  by (simp add: add_def release_def)

text \<open>C15: Releasing a live TimeID never makes it released at once (it is stamped with the current time record); after the next newTimeRecord at a later time it is released exactly when its count was 1 and the stamp is positive and earlier than the new time.\<close>

theorem release_protocol:
  assumes r: "records tm t = Some r" "1 \<le> refs r" and fresh: "releasedRecords tm t = None"
  shows "\<not> isReleased t (release t tm)
    \<and> (isReleased t (newTimeRecord now (release t tm))
         \<longleftrightarrow> refs r = 1 \<and> 0 <s lastUnref (timeRecord tm) \<and> lastUnref (timeRecord tm) <s now)"
  using assms by (auto simp: release_def isReleased_def tr_isReleased_def newTimeRecord_def Let_def)

theorem isReleased_stable:
  assumes rel: "isReleased t tm" and clk: "clock_ok op tm"
    and nexp: "\<forall>now. op \<noteq> StartExpirer now" and nab: "op \<noteq> Abort t"
    and nrel: "op = Release t \<longrightarrow> records tm t = None"
  shows "isReleased t (tm_step op tm)"
  using assms
  by (cases op)
     (auto simp: isReleased_def tr_isReleased_def newTimeRecord_def newTimeID_def add_def release_def abort_def
        Let_def signed.less_le_trans split: option.splits if_splits)

theorem abort_revokes_release:
  "isReleased t tm \<Longrightarrow> \<not> isReleased t (abort t tm) \<and> isAborted t (abort t tm)"
  by (simp add: isReleased_def isAborted_def abort_def)

subsection \<open>The expirer\<close>

lemma sint_nanosecond: "0 \<le> sint (nanosecond now) \<and> sint (nanosecond now) < 1000000000"
proof -
  have r: "0 \<le> sint now mod 1000000000" "sint now mod 1000000000 < 1000000000" by simp_all
  have "sint (word_of_int (sint now mod 1000000000) :: i64) = signed_take_bit 63 (sint now mod 1000000000)"
    by (simp add: sint_sbintrunc')
  also have "\<dots> = sint now mod 1000000000"
    using r by (intro signed_take_bit_int_eq_self) auto
  finally show ?thesis using r by (simp add: nanosecond_def)
qed

lemma not_isExpired:
  assumes "1000000000 \<le> sint (lastUnref r)" "0 \<le> sint d" "sint (lastUnref r) + sint d < 2^63"
  shows "\<not> isExpired r d now"
proof -
  have "sint (lastUnref r + d) = sint (lastUnref r) + sint d"
    using assms by (intro sint_add_nonneg) auto
  then show ?thesis using assms sint_nanosecond [of now]
    by (simp add: isExpired_def word_sle_eq)
qed

text \<open>C37: startExpirer leaves the ledger unchanged at every clock reading when every released record was stamped at least one second after the epoch (and stamp plus expiry duration does not overflow), because isExpired compares against the sub-second part of the clock.\<close>

theorem startExpirer_never_evicts:
  assumes old: "\<forall>r \<in> ran (releasedRecords tm). 1000000000 \<le> sint (lastUnref r) \<and> sint (lastUnref r) + sint (durations tm) < 2^63"
    and d: "0 \<le> sint (durations tm)"
  shows "startExpirer now tm = tm"
proof -
  have "releasedRecords (startExpirer now tm) = releasedRecords tm"
  proof
    fix t
    show "releasedRecords (startExpirer now tm) t = releasedRecords tm t"
    proof (cases "releasedRecords tm t")
      case (Some r)
      then have "r \<in> ran (releasedRecords tm)" by (auto simp: ran_def)
      with old have h: "1000000000 \<le> sint (lastUnref r) \<and> sint (lastUnref r) + sint (durations tm) < 2^63"
        by blast
      have "\<not> isExpired r (durations tm) now"
        using not_isExpired [OF conjunct1 [OF h] d conjunct2 [OF h]] .
      with Some show ?thesis by (simp add: startExpirer_def)
    qed (simp add: startExpirer_def)
  qed
  then show ?thesis by (simp add: startExpirer_def)
qed

theorem startExpirer_never_evicts_witness:
  "let tm = (newTimeMark 60000000000 1600000000000000000)
              \<lparr>releasedRecords := [5 \<mapsto> \<lparr>refs = 0, lastUnref = 1600000000000000000\<rparr>]\<rparr>
   in releasedRecords tm 5 = Some \<lparr>refs = 0, lastUnref = 1600000000000000000\<rparr>
      \<and> 0 \<le> sint (durations tm)
      \<and> startExpirer 1600000061000000000 tm = tm"
proof -
  define tm where "tm = (newTimeMark 60000000000 1600000000000000000)
              \<lparr>releasedRecords := [5 \<mapsto> \<lparr>refs = 0, lastUnref = 1600000000000000000\<rparr>]\<rparr>"
  have a: "\<forall>r \<in> ran (releasedRecords tm). 1000000000 \<le> sint (lastUnref r) \<and> sint (lastUnref r) + sint (durations tm) < 2^63"
    by (simp add: tm_def newTimeMark_def)
  have b: "0 \<le> sint (durations tm)" by (simp add: tm_def newTimeMark_def)
  show ?thesis using startExpirer_never_evicts [OF a b, of 1600000061000000000] b
    by (simp add: tm_def [symmetric]) (simp add: tm_def)
qed

subsection \<open>Witnesses\<close>

theorem tm_run_inv_witness:
  "tm_inv (newTimeMark 0 1) \<and> tm_inv (tm_run [NewTimeID 5, Add 5, Add 6, Release 5, Abort 6, StartExpirer 9] (newTimeMark 0 1))"
proof -
  have h: "tm_inv (newTimeMark 0 1)" by (simp add: tm_inv_def newTimeMark_def)
  show ?thesis using tm_run_inv [OF h] h by blast
qed

theorem release_protocol_witness:
  "records (add 5 (newTimeMark 0 10)) 5 = Some \<lparr>refs = 1, lastUnref = 0\<rparr>
   \<and> 1 \<le> refs \<lparr>refs = 1, lastUnref = (0::i64)\<rparr>
   \<and> releasedRecords (add 5 (newTimeMark 0 10)) 5 = None
   \<and> \<not> isReleased 5 (release 5 (add 5 (newTimeMark 0 10)))
   \<and> isReleased 5 (newTimeRecord 20 (release 5 (add 5 (newTimeMark 0 10))))"
proof -
  have h: "records (add 5 (newTimeMark 0 10)) 5 = Some \<lparr>refs = 1, lastUnref = 0\<rparr>"
    "1 \<le> refs \<lparr>refs = 1, lastUnref = (0::i64)\<rparr>" "releasedRecords (add 5 (newTimeMark 0 10)) 5 = None"
    by (simp_all add: add_def newTimeMark_def)
  have c: "0 <s lastUnref (timeRecord (add 5 (newTimeMark 0 10))) \<and> lastUnref (timeRecord (add 5 (newTimeMark 0 10))) <s (20::i64)"
    by (simp add: add_def newTimeMark_def word_sless_alt)
  show ?thesis using release_protocol [OF h, of 20] h c by simp
qed

theorem isReleased_stable_witness:
  "isReleased 5 tm_demo \<and> clock_ok (NewTimeRecord 30) tm_demo \<and> NewTimeRecord 30 \<noteq> Abort 5
   \<and> isReleased 5 (tm_step (NewTimeRecord 30) tm_demo)"
proof -
  have r: "isReleased 5 tm_demo"
    by (simp add: tm_demo_def isReleased_def tr_isReleased_def newTimeRecord_def release_def add_def
        newTimeMark_def Let_def word_sless_alt)
  have c: "clock_ok (NewTimeRecord 30) tm_demo"
    by (simp add: tm_demo_def newTimeRecord_def word_sle_eq)
  have o: "\<forall>now. NewTimeRecord 30 \<noteq> StartExpirer now" "NewTimeRecord 30 \<noteq> Abort 5"
    "NewTimeRecord 30 = Release 5 \<longrightarrow> records tm_demo 5 = None" by simp_all
  show ?thesis using isReleased_stable [OF r c o] r c o by blast
qed

theorem abort_revokes_release_witness:
  "isReleased 5 tm_demo \<and> \<not> isReleased 5 (abort 5 tm_demo) \<and> isAborted 5 (abort 5 tm_demo)"
proof -
  have r: "isReleased 5 tm_demo"
    by (simp add: tm_demo_def isReleased_def tr_isReleased_def newTimeRecord_def release_def add_def
        newTimeMark_def Let_def word_sless_alt)
  show ?thesis using abort_revokes_release [OF r] r by blast
qed

end
