(* ===== verification/Memdb.thy ===== *)
theory Memdb
  imports MemTable WalReader TimeMark
begin

text \<open>
  The staging store of the memdb (\<open>memdb/timelock.go\<close>, from line 49).  Each
  tiny batch has a TimeID.  The block of that TimeID is an append-only byte slab
  (\<open>MemTable\<close>) with a map from internal keys \<open>{delFlag, key}\<close> to the
  offset of a framed record \<open>| u32 dataLen | u8 delFlag | u64 key | payload |\<close>.
  \<^item> \<open>delete\<close> appends a deletion marker whose payload is the TimeID of the
    current tiny batch.
  \<^item> \<open>tinyWrite\<close> copies every record of a block, without its length prefix,
    into one WAL group.
  \<^item> Recovery (\<open>startRecover\<close>) replays the groups into a map from keys to
    values.
  \<^item> \<open>releaseLog\<close> moves deletion markers, drops the block and marks the
    group applied.
  Go map iteration has no fixed order.  Every loop over a map therefore takes
  the order as an argument \<open>ks\<close>, an enumeration of the map's keys.  The
  theorems hold for every order, or show that the result depends on it.
  \<open>DB.Put\<close> and \<open>_TinyBatch\<close> are not in the sources.  They are modelled
  from the specification (sections 4.E--G).  The WAL is abstract here: the list
  of groups signalled written, and the list of TimeIDs signalled applied.
\<close>

subsection \<open>Blocks\<close>

record ikey =
  delFlag :: byte
  key :: u64

record block =
  b_count :: i64
  b_data :: "byte list"
  b_records :: "ikey \<rightharpoonup> i64"

definition newBlock :: block where
  "newBlock = \<lparr>b_count = 0, b_data = [], b_records = Map.empty\<rparr>"

definition iKey :: "bool \<Rightarrow> u64 \<Rightarrow> ikey" where
  "iKey del k = \<lparr>delFlag = (if del then 1 else 0), key = k\<rparr>"

text \<open>
  \<open>_Block.put\<close> allocates \<open>len(data) + 13\<close> bytes; the length wraps at
  \<open>2^32\<close>.  It then writes the length, the flag and the key, records the offset,
  writes the payload, and counts a record that is not a delete.  An error
  returns at once and keeps what was already done.  The record map is updated
  before the payload is written.
\<close>

definition block_put :: "ikey \<Rightarrow> byte list \<Rightarrow> block \<Rightarrow> go_error option \<times> block" where
  "block_put ik data b =
     (let dataLen = (word_of_nat (length data + 8 + 1 + 4) :: u32);
          (off, d1) = dt_allocate (unat dataLen) (b_data b)
      in case dt_writeAt (le_enc 4 dataLen) off d1 of
           Inl e \<Rightarrow> (Some e, b\<lparr>b_data := d1\<rparr>)
         | Inr d2 \<Rightarrow>
             (case dt_writeAt (delFlag ik # le_enc 8 (key ik)) (off + 4) d2 of
                Inl e \<Rightarrow> (Some e, b\<lparr>b_data := d2\<rparr>)
              | Inr d3 \<Rightarrow>
                  let recs = (b_records b)(ik \<mapsto> off) in
                  (case dt_writeAt data (off + 8 + 1 + 4) d3 of
                     Inl e \<Rightarrow> (Some e, b\<lparr>b_data := d3, b_records := recs\<rparr>)
                   | Inr d4 \<Rightarrow>
                       (None, \<lparr>b_count = (if delFlag ik = 0 then b_count b + 1 else b_count b),
                               b_data = d4, b_records = recs\<rparr>))))"

text \<open>
  Reading a record back: \<open>readRaw(off, 4)\<close> gives the length, then
  \<open>readRaw(off, dataLen)\<close> the record.  Both reads can fail.
\<close>

definition read_record :: "byte list \<Rightarrow> i64 \<Rightarrow> go_error + byte list" where
  "read_record d off =
     (case dt_readRaw d off 4 of
        Inl e \<Rightarrow> Inl e
      | Inr scratch \<Rightarrow> dt_readRaw d off (unat (le_dec scratch :: u32)))"

text \<open>The bytes \<open>put\<close> lays down for one record.\<close>

definition put_bytes :: "ikey \<Rightarrow> byte list \<Rightarrow> byte list" where
  "put_bytes ik data =
     le_enc 4 (word_of_nat (length data + 13) :: u32) @ delFlag ik # le_enc 8 (key ik) @ data"

text \<open>
  The layout invariant of a block (specification 4.F).  Every flag is 0 or 1,
  and every offset in the map reads back a record laid down by \<open>put\<close> for its
  map key.
\<close>

definition rec_ok :: "byte list \<Rightarrow> i64 \<Rightarrow> ikey \<Rightarrow> bool" where
  "rec_ok d off ik \<longleftrightarrow>
     (case read_record d off of Inl _ \<Rightarrow> False | Inr r \<Rightarrow> r = put_bytes ik (drop 13 r))"

definition block_wf :: "block \<Rightarrow> bool" where
  "block_wf b \<longleftrightarrow> (\<forall>ik off. b_records b ik = Some off \<longrightarrow> delFlag ik \<le> 1 \<and> rec_ok (b_data b) off ik)"

subsection \<open>The memdb state\<close>

text \<open>
  \<open>_TinyBatch\<close> (specification 4.G): its TimeID, the number of writes
  counted by \<open>incount\<close>, whether a \<open>Batch\<close> owns it, and whether it was
  signalled done (\<open>abort\<close>, deferred in \<open>tinyCommit\<close>).
\<close>

record tinyBatch =
  tb_ID :: timeID
  tb_len :: nat
  tb_managed :: bool
  tb_done :: bool

record mdb =
  m_blockCache :: "timeID \<rightharpoonup> block"
  m_timeMark :: timeMark
  m_tinyBatch :: tinyBatch
  m_queue :: "tinyBatch list"
  m_wal :: "(timeID \<times> byte list list) list"
  m_applied :: "timeID list"
  m_closed :: u32

definition newTinyBatch :: "i64 \<Rightarrow> mdb \<Rightarrow> tinyBatch \<times> mdb" where
  "newTinyBatch now db =
     (let (t, tm) = newTimeID now (m_timeMark db)
      in (\<lparr>tb_ID = t, tb_len = 0, tb_managed = False, tb_done = False\<rparr>, db\<lparr>m_timeMark := tm\<rparr>))"

text \<open>The block of the current tiny batch, created if absent.\<close>

definition cur_block :: "mdb \<Rightarrow> block" where
  "cur_block db = (case m_blockCache db (tb_ID (m_tinyBatch db)) of None \<Rightarrow> newBlock | Some b \<Rightarrow> b)"

text \<open>
  \<open>delete\<close>: a deletion marker whose payload is the current TimeID.  The error
  of \<open>put\<close> is dropped, and the tiny batch is counted in every case.
\<close>

definition mdb_delete :: "u64 \<Rightarrow> mdb \<Rightarrow> mdb" where
  "mdb_delete k db =
     (let t = tb_ID (m_tinyBatch db);
          b = snd (block_put (iKey True k) (le_enc 8 t) (cur_block db))
      in db\<lparr>m_blockCache := (m_blockCache db)(t \<mapsto> b),
            m_tinyBatch := (m_tinyBatch db)\<lparr>tb_len := tb_len (m_tinyBatch db) + 1\<rparr>\<rparr>)"

text \<open>\<open>DB.Put\<close> (specification 4.E): the same steps with the flag clear.\<close>

definition mdb_put :: "u64 \<Rightarrow> byte list \<Rightarrow> mdb \<Rightarrow> go_error option \<times> mdb" where
  "mdb_put k v db =
     (let t = tb_ID (m_tinyBatch db);
          (err, b) = block_put (iKey False k) v (cur_block db);
          db1 = db\<lparr>m_blockCache := (m_blockCache db)(t \<mapsto> b)\<rparr>
      in case err of
           Some e \<Rightarrow> (Some e, db1)
         | None \<Rightarrow> (None, db1\<lparr>m_tinyBatch := (m_tinyBatch db)\<lparr>tb_len := tb_len (m_tinyBatch db) + 1\<rparr>\<rparr>))"

subsection \<open>Writing a tiny batch to the WAL\<close>

text \<open>
  The loop of \<open>tinyWrite\<close> over \<open>block.records\<close>.  A failed length read
  returns the error.  A failed record read skips the record silently.  A record
  shorter than 4 bytes panics on \<open>data[4:]\<close>.
\<close>

fun write_records :: "byte list \<Rightarrow> (ikey \<rightharpoonup> i64) \<Rightarrow> ikey list \<Rightarrow> go_error + byte list list" where
  "write_records d recs [] = Inr []"
| "write_records d recs (ik # ks) =
     (case recs ik of
        None \<Rightarrow> write_records d recs ks
      | Some off \<Rightarrow>
          (case dt_readRaw d off 4 of
             Inl e \<Rightarrow> Inl e
           | Inr scratch \<Rightarrow>
               (case dt_readRaw d off (unat (le_dec scratch :: u32)) of
                  Inl _ \<Rightarrow> write_records d recs ks
                | Inr data \<Rightarrow>
                    if length data < 4 then Inl (Panic ''slice bounds out of range'')
                    else (case write_records d recs ks of
                            Inl e \<Rightarrow> Inl e
                          | Inr es \<Rightarrow> Inr (drop 4 data # es)))))"

text \<open>
  \<open>tinyWrite\<close>: nothing to do without a block.  Otherwise every record is
  appended, and \<open>SignalInitWrite(timeID)\<close> makes the group one WAL group.
\<close>

definition tinyWrite :: "ikey list \<Rightarrow> tinyBatch \<Rightarrow> mdb \<Rightarrow> go_error + mdb" where
  "tinyWrite ks tb db =
     (case m_blockCache db (tb_ID tb) of
        None \<Rightarrow> Inr db
      | Some b \<Rightarrow>
          (case write_records (b_data b) (b_records b) ks of
             Inl e \<Rightarrow> Inl e
           | Inr es \<Rightarrow> Inr (db\<lparr>m_wal := m_wal db @ [(tb_ID tb, es)]\<rparr>)))"

text \<open>
  \<open>tinyCommit\<close>: an empty tiny batch writes nothing.  Otherwise it is written,
  and an unmanaged batch releases its TimeID.  The deferred \<open>abort\<close> marks the
  batch done on every path.
\<close>

definition tinyCommit :: "ikey list \<Rightarrow> tinyBatch \<Rightarrow> mdb \<Rightarrow> go_error option \<times> tinyBatch \<times> mdb" where
  "tinyCommit ks tb db =
     (let tb' = tb\<lparr>tb_done := True\<rparr> in
      if tb_len tb = 0 then (None, tb', db)
      else case tinyWrite ks tb db of
             Inl e \<Rightarrow> (Some e, tb', db)
           | Inr db1 \<Rightarrow>
               (None, tb',
                if tb_managed tb then db1
                else db1\<lparr>m_timeMark := release (tb_ID tb) (m_timeMark db1)\<rparr>))"

subsection \<open>Recovery\<close>

text \<open>
  One record of a recovered group.  \<open>logData[0]\<close> and \<open>logData[1:9]\<close> panic
  on a record shorter than 9 bytes.  Flag 1 deletes the key, and any other flag
  stores the value.
\<close>

definition replay_entry :: "byte list \<Rightarrow> (u64 \<rightharpoonup> byte list) \<Rightarrow> go_error + (u64 \<rightharpoonup> byte list)" where
  "replay_entry logData log =
     (if length logData < 9 then Inl (Panic ''index out of range'')
      else
        let dBit = logData ! 0;
            k = (le_dec (take 8 (drop 1 logData)) :: u64);
            val = drop 9 logData
        in if dBit = 1 then Inr (log(k := None)) else Inr (log(k \<mapsto> val)))"

text \<open>
  The callback that \<open>startRecover\<close> passes to \<open>Reader.Read\<close>.  It calls
  \<open>Next\<close> at most \<open>Count\<close> times, returns on an error, stops when \<open>Next\<close>
  reports no more records, and replays each record into the map.  The map is
  changed in place, so an error keeps the records replayed before it.
\<close>

fun recover_loop :: "nat \<Rightarrow> reader \<Rightarrow> (u64 \<rightharpoonup> byte list) \<Rightarrow> go_error option \<times> (u64 \<rightharpoonup> byte list)" where
  "recover_loop 0 r log = (None, log)"
| "recover_loop (Suc n) r log =
     (case reader_next r of
        (Inl e, _) \<Rightarrow> (Some e, log)
      | (Inr None, _) \<Rightarrow> (None, log)
      | (Inr (Some logData), r') \<Rightarrow>
          (case replay_entry logData log of
             Inl e \<Rightarrow> (Some e, log)
           | Inr log' \<Rightarrow> recover_loop n r' log'))"

text \<open>
  \<open>Reader.Read\<close> calls the callback once per written group, in log order, and
  returns the first error.  A group is given by its body and its entry count.
\<close>

fun recover_groups :: "(byte list \<times> u32) list \<Rightarrow> (u64 \<rightharpoonup> byte list) \<Rightarrow> go_error option \<times> (u64 \<rightharpoonup> byte list)" where
  "recover_groups [] log = (None, log)"
| "recover_groups ((ld, c) # gs) log =
     (case recover_loop (unat c) \<lparr>r_logData = ld, r_offset = 0, r_entryCount = c\<rparr> log of
        (Some e, log') \<Rightarrow> (Some e, log')
      | (None, log') \<Rightarrow> recover_groups gs log')"

text \<open>
  \<open>startRecover\<close> after the WAL is opened: the result of \<open>r.Read\<close> is
  assigned to \<open>err\<close> and never read, so an error return of \<open>Next\<close> or of
  a malformed record is dropped; a panic (a short record in \<open>Next\<close>, or
  \<open>logData[1:9]\<close> on a short payload) is not a return value and propagates
  out of \<open>startRecover\<close>.  The WAL is then reset, and the map is returned
  for the final \<open>Put\<close> loop.
\<close>

definition startRecover :: "(byte list \<times> u32) list \<Rightarrow> go_error option \<times> (u64 \<rightharpoonup> byte list)" where
  "startRecover gs =
     (case recover_groups gs Map.empty of
        (err, log) \<Rightarrow> ((case err of Some (Panic msg) \<Rightarrow> Some (Panic msg) | _ \<Rightarrow> None), log))"

subsection \<open>Releasing a log\<close>

text \<open>
  \<open>move\<close>: for each deletion marker of the block, read the TimeID it
  carries.  If that TimeID still has a block, reissue the delete and return; so
  at most one marker is moved.  A record that is not 21 bytes long is a bad
  request.
\<close>

fun move_loop :: "block \<Rightarrow> ikey list \<Rightarrow> mdb \<Rightarrow> go_error option \<times> mdb" where
  "move_loop b [] db = (None, db)"
| "move_loop b (ik # ks) db =
     (case b_records b ik of
        None \<Rightarrow> move_loop b ks db
      | Some off \<Rightarrow>
          (case dt_readRaw (b_data b) off 4 of
             Inl e \<Rightarrow> (Some e, db)
           | Inr scratch \<Rightarrow>
               let dataLen = (le_dec scratch :: u32) in
               (case dt_readRaw (b_data b) off (unat dataLen) of
                  Inl e \<Rightarrow> (Some e, db)
                | Inr data \<Rightarrow>
                    if dataLen \<noteq> 8 + 1 + 4 + 8 then (Some (dberr ErrBadRequest), db)
                    else
                      let t = (le_dec (take (unat dataLen - 13) (drop 13 data)) :: timeID) in
                      if m_blockCache db t \<noteq> None then (None, mdb_delete (key ik) db)
                      else move_loop b ks db)))"

text \<open>
  \<open>move(timeID)\<close>.  A missing block is a nil pointer, and \<open>block.RLock()\<close>
  panics on it.  The deletion markers are taken in the order of \<open>ks\<close>.
\<close>

definition move :: "ikey list \<Rightarrow> timeID \<Rightarrow> mdb \<Rightarrow> go_error option \<times> mdb" where
  "move ks t db =
     (case m_blockCache db t of
        None \<Rightarrow> (Some (Panic ''nil pointer dereference''), db)
      | Some b \<Rightarrow> move_loop b (filter (\<lambda>ik. delFlag ik = 1) ks) db)"

text \<open>
  \<open>releaseLog\<close>.  The error of \<open>move\<close> is dropped, but its panic is not.
  The block is reset and removed, and the group is signalled applied.  The
  \<open>!ok\<close> test comes after \<open>block.Lock()\<close> on the same nil pointer.
\<close>

definition releaseLog :: "ikey list \<Rightarrow> timeID \<Rightarrow> mdb \<Rightarrow> go_error option \<times> mdb" where
  "releaseLog ks t db =
     (case move ks t db of
        (Some (Panic msg), db1) \<Rightarrow> (Some (Panic msg), db1)
      | (_, db1) \<Rightarrow>
          (case m_blockCache db1 t of
             None \<Rightarrow> (Some (Panic ''nil pointer dereference''), db1)
           | Some _ \<Rightarrow>
               (None, db1\<lparr>m_blockCache := (m_blockCache db1)(t := None),
                          m_applied := m_applied db1 @ [t]\<rparr>)))"

subsection \<open>The tiny-batch loop and closing\<close>

text \<open>
  One tick of \<open>tinyBatchLoop\<close>.  A non-empty tiny batch goes to the batch
  pool.  A fresh tiny batch with a fresh TimeID replaces it in every case.
\<close>

definition tick :: "i64 \<Rightarrow> mdb \<Rightarrow> mdb" where
  "tick now db =
     (let db1 = (if tb_len (m_tinyBatch db) \<noteq> 0 then db\<lparr>m_queue := m_queue db @ [m_tinyBatch db]\<rparr> else db);
          (tb, db2) = newTinyBatch now db1
      in db2\<lparr>m_tinyBatch := tb\<rparr>)"

definition setClosed :: "mdb \<Rightarrow> bool \<times> mdb" where
  "setClosed db = (if m_closed db = 0 then (True, db\<lparr>m_closed := 1\<rparr>) else (False, db))"

definition mdb_close :: "mdb \<Rightarrow> go_error option \<times> mdb" where
  "mdb_close db = (case setClosed db of (False, db1) \<Rightarrow> (Some (dberr ErrClosed), db1) | (True, db1) \<Rightarrow> (None, db1))"

definition isClosed :: "mdb \<Rightarrow> bool" where
  "isClosed db \<longleftrightarrow> m_closed db \<noteq> 0"

subsection \<open>Abstract view\<close>

text \<open>
  What a block means.  \<open>payload_of\<close> is the payload of a key's record,
  \<open>entry_of\<close> the WAL entry \<open>tinyWrite\<close> makes of it, and \<open>blk_view\<close> the
  key-value map of the block's non-deleted records.  \<open>apply_rec\<close> is the effect
  of replaying one entry, and \<open>replay_all\<close> replays a list of entries as the
  recovery callback does.  \<open>no_conflict\<close> says that no key has both a value and
  a deletion marker in the enumeration.  \<open>recover_wal\<close> is the map that
  recovery rebuilds from the WAL groups written so far, each group framed by the
  writer.  \<open>mdb_wf\<close> is the invariant that every cached block is well formed.
\<close>

definition payload_of :: "block \<Rightarrow> ikey \<Rightarrow> byte list" where
  "payload_of b ik = (case b_records b ik of None \<Rightarrow> [] | Some off \<Rightarrow>
     (case read_record (b_data b) off of Inl _ \<Rightarrow> [] | Inr r \<Rightarrow> drop 13 r))"

definition entry_of :: "block \<Rightarrow> ikey \<Rightarrow> byte list" where
  "entry_of b ik = delFlag ik # le_enc 8 (key ik) @ payload_of b ik"

definition blk_view :: "block \<Rightarrow> u64 \<rightharpoonup> byte list" where
  "blk_view b k = (case b_records b (iKey False k) of None \<Rightarrow> None | Some _ \<Rightarrow> Some (payload_of b (iKey False k)))"

definition apply_rec :: "block \<Rightarrow> ikey \<Rightarrow> (u64 \<rightharpoonup> byte list) \<Rightarrow> (u64 \<rightharpoonup> byte list)" where
  "apply_rec b ik log = (if delFlag ik = 1 then log(key ik := None) else log(key ik \<mapsto> payload_of b ik))"

fun replay_all :: "byte list list \<Rightarrow> (u64 \<rightharpoonup> byte list) \<Rightarrow> go_error option \<times> (u64 \<rightharpoonup> byte list)" where
  "replay_all [] log = (None, log)"
| "replay_all (e # es) log =
     (case replay_entry e log of Inl err \<Rightarrow> (Some err, log) | Inr log' \<Rightarrow> replay_all es log')"

definition no_conflict :: "ikey list \<Rightarrow> bool" where
  "no_conflict ks \<longleftrightarrow> list_all (\<lambda>ik. iKey False (key ik) \<notin> set ks \<or> iKey True (key ik) \<notin> set ks) ks"

definition recover_wal :: "mdb \<Rightarrow> (u64 \<rightharpoonup> byte list)" where
  "recover_wal db = snd (startRecover (map (\<lambda>(t, es). (group_body es, word_of_nat (length es))) (m_wal db)))"

definition mdb_wf :: "mdb \<Rightarrow> bool" where
  "mdb_wf db \<longleftrightarrow> (\<forall>t b. m_blockCache db t = Some b \<longrightarrow> block_wf b)"

text \<open>A memdb with tiny batch 5 and no blocks, for the examples.\<close>

definition demo_db :: mdb where
  "demo_db = \<lparr>m_blockCache = Map.empty, m_timeMark = snd (newTimeID 5 (newTimeMark 10 0)),
     m_tinyBatch = \<lparr>tb_ID = 5, tb_len = 0, tb_managed = False, tb_done = False\<rparr>,
     m_queue = [], m_wal = [], m_applied = [], m_closed = 0\<rparr>"

subsection \<open>Blocks: layout and put\<close>

lemma length_put_bytes [simp]: "length (put_bytes ik data) = length data + 13"
  by (simp add: put_bytes_def)

lemma drop_put_bytes [simp]: "drop 13 (put_bytes ik p) = p"
  by (simp add: put_bytes_def)

lemma block_put_ok:
  assumes "length data + 13 < 2^32" "length (b_data b) + length data + 13 < 2^63"
  shows "block_put ik data b =
    (None, \<lparr>b_count = (if delFlag ik = 0 then b_count b + 1 else b_count b),
            b_data = b_data b @ put_bytes ik data,
            b_records = (b_records b)(ik \<mapsto> word_of_nat (length (b_data b)))\<rparr>)"
proof -
  let ?D = "b_data b" and ?L = "length data"
  let ?dl = "word_of_nat (?L + 8 + 1 + 4) :: u32" and ?off = "word_of_nat (length ?D) :: i64"
  have u: "unat ?dl = ?L + 13"
    using assms(1) unat_u32_of_nat [of "?L + 13"] by (simp add: add.commute)
  have w1: "dt_writeAt (le_enc 4 ?dl) ?off (?D @ replicate (?L + 13) 0)
              = Inr (?D @ le_enc 4 ?dl @ replicate (?L + 9) 0)"
    using assms by (simp add: dt_writeAt_nat)
  have o4: "?off + 4 = word_of_nat (length ?D + 4)" by simp
  have w2: "dt_writeAt (delFlag ik # le_enc 8 (key ik)) (?off + 4) (?D @ le_enc 4 ?dl @ replicate (?L + 9) 0)
              = Inr (?D @ le_enc 4 ?dl @ (delFlag ik # le_enc 8 (key ik)) @ replicate ?L 0)"
    unfolding o4 using assms by (subst dt_writeAt_nat) (simp_all add: replicate_add [symmetric])
  have o13: "?off + 8 + 1 + 4 = word_of_nat (length ?D + 13)" by simp
  have w3: "dt_writeAt data (?off + 8 + 1 + 4) (?D @ le_enc 4 ?dl @ (delFlag ik # le_enc 8 (key ik)) @ replicate ?L 0)
              = Inr (?D @ le_enc 4 ?dl @ (delFlag ik # le_enc 8 (key ik)) @ data)"
    unfolding o13 using assms by (subst dt_writeAt_nat) simp_all
  show ?thesis
    by (simp only: block_put_def dt_allocate_def Let_def prod.case u w1 sum.case w2 w3)
       (simp add: put_bytes_def add.commute)
qed

lemma read_record_put:
  assumes "length data + 13 < 2^32" "length D + length data + 13 < 2^63"
  shows "read_record (D @ put_bytes ik data @ E) (word_of_nat (length D)) = Inr (put_bytes ik data)"
proof -
  let ?bs = "put_bytes ik data"
  have t4: "take 4 ?bs = le_enc 4 (word_of_nat (length ?bs) :: u32)"
    by (simp add: put_bytes_def add.commute)
  have b: "length ?bs < 2^32" "4 \<le> length ?bs" "length D + length ?bs < 2^63" using assms by simp_all
  note r = read_appended [OF b t4, of E]
  have u: "unat (le_dec (le_enc 4 (word_of_nat (length ?bs) :: u32)) :: u32) = length ?bs"
    using assms(1) by (intro le_dec_len_u32) simp
  show ?thesis by (simp only: read_record_def r u sum.case)
qed

lemma read_record_append:
  "read_record d off = Inr r \<Longrightarrow> read_record (d @ e) off = Inr r"
  by (auto simp: read_record_def dt_readRaw_append split: sum.splits)

lemma rec_ok_append: "rec_ok d off ik \<Longrightarrow> rec_ok (d @ e) off ik"
  by (auto simp: rec_ok_def read_record_append split: sum.splits)

lemma rec_ok_put:
  "length data + 13 < 2^32 \<Longrightarrow> length D + length data + 13 < 2^63 \<Longrightarrow>
   rec_ok (D @ put_bytes ik data) (word_of_nat (length D)) ik"
  using read_record_put [of data D ik "[]"] by (simp add: rec_ok_def)

lemma block_put_wf:
  assumes "block_wf b" "delFlag ik \<le> 1"
    and "length data + 13 < 2^32" "length (b_data b) + length data + 13 < 2^63"
  shows "block_wf (snd (block_put ik data b))"
proof -
  have "block_wf \<lparr>b_count = c, b_data = b_data b @ put_bytes ik data,
              b_records = (b_records b)(ik \<mapsto> word_of_nat (length (b_data b)))\<rparr>" for c
    using assms rec_ok_put [OF assms(3,4)] unfolding block_wf_def by (auto intro: rec_ok_append)
  then show ?thesis using assms(3,4) by (simp add: block_put_ok)
qed

text \<open>C3: _Block.put on a well-formed block with a payload below the size bounds succeeds, keeps the block well formed, maps the key to the old end of the slab where the framed record reads back intact, and counts only non-deletes.\<close>

theorem block_put_spec:
  assumes "block_wf b" "delFlag ik \<le> 1"
    and "length data + 13 < 2^32" "length (b_data b) + length data + 13 < 2^63"
  shows "fst (block_put ik data b) = None \<and> block_wf (snd (block_put ik data b))
    \<and> b_records (snd (block_put ik data b)) ik = Some (word_of_nat (length (b_data b)))
    \<and> read_record (b_data (snd (block_put ik data b))) (word_of_nat (length (b_data b))) = Inr (put_bytes ik data)
    \<and> b_count (snd (block_put ik data b)) = (if delFlag ik = 0 then b_count b + 1 else b_count b)"
  using assms(3,4) block_put_wf [OF assms] read_record_put [OF assms(3,4), of ik "[]"] by (simp add: block_put_ok)

subsection \<open>Writing a block and recovering it\<close>

lemma write_records_wf:
  assumes "block_wf b" "set ks \<subseteq> dom (b_records b)"
  shows "write_records (b_data b) (b_records b) ks = Inr (map (entry_of b) ks)"
  using assms(2)
proof (induction ks)
  case Nil
  then show ?case by simp
next
  case (Cons ik ks)
  then obtain off where off: "b_records b ik = Some off" by auto
  with assms(1) have ok: "rec_ok (b_data b) off ik" by (simp add: block_wf_def)
  then obtain scratch r where s: "dt_readRaw (b_data b) off 4 = Inr scratch"
    and rr: "dt_readRaw (b_data b) off (unat (le_dec scratch :: u32)) = Inr r"
    and r: "r = put_bytes ik (drop 13 r)"
    by (auto simp: rec_ok_def read_record_def split: sum.splits)
  have rd: "read_record (b_data b) off = Inr r" by (simp add: read_record_def s rr)
  define p where "p = drop 13 r"
  have rp: "r = put_bytes ik p" using r by (simp add: p_def)
  have "payload_of b ik = p" using rd off rp by (simp add: payload_of_def put_bytes_def)
  then have "drop 4 r = entry_of b ik" by (simp add: rp entry_of_def put_bytes_def)
  moreover have "4 \<le> length r" by (simp add: rp)
  ultimately show ?case using Cons off s rr by simp
qed

lemma replay_entry_of:
  "replay_entry (entry_of b ik) log = Inr (apply_rec b ik log)"
  by (simp add: replay_entry_def entry_of_def apply_rec_def le_dec_le_enc)

lemma replay_all_entries:
  "replay_all (map (entry_of b) ks) log = (None, fold (apply_rec b) ks log)"
  by (induction ks arbitrary: log) (simp_all add: replay_entry_of)

lemma byte_le_1: "(x::byte) \<le> 1 \<Longrightarrow> x = 0 \<or> x = 1"
  by (metis antisym_conv2 word_le_0_iff word_less_1)

lemma ikey_cases: "delFlag ik \<le> 1 \<Longrightarrow> ik = iKey False (key ik) \<or> ik = iKey True (key ik)"
  by (cases ik) (auto simp: iKey_def dest: byte_le_1)

lemma key_iKey [simp]: "key (iKey d k) = k"
  by (simp add: iKey_def)

lemma no_conflict_iff: "no_conflict ks \<longleftrightarrow> (\<forall>k. \<not> (iKey False k \<in> set ks \<and> iKey True k \<in> set ks))"
  by (fastforce simp: no_conflict_def list_all_iff)

lemma fold_apply_rec:
  assumes "distinct ks" "no_conflict ks" "\<forall>ik\<in>set ks. delFlag ik \<le> 1"
  shows "fold (apply_rec b) ks log k =
           (if iKey False k \<in> set ks then Some (payload_of b (iKey False k))
            else if iKey True k \<in> set ks then None else log k)"
  using assms
proof (induction ks arbitrary: log)
  case Nil
  then show ?case by simp
next
  case (Cons ik ks)
  have nc: "no_conflict ks" using Cons.prems(2) by (auto simp: no_conflict_iff)
  have IH: "fold (apply_rec b) ks (apply_rec b ik log) k =
           (if iKey False k \<in> set ks then Some (payload_of b (iKey False k))
            else if iKey True k \<in> set ks then None else apply_rec b ik log k)"
    using Cons.IH [OF _ nc] Cons.prems by simp
  have ik: "ik = iKey False (key ik) \<or> ik = iKey True (key ik)" using Cons.prems(3) by (simp add: ikey_cases)
  have step: "fold (apply_rec b) (ik # ks) log k = fold (apply_rec b) ks (apply_rec b ik log) k" by simp
  show ?case
  proof (cases "key ik = k")
    case True
    then have "iKey False k \<notin> set ks \<and> iKey True k \<notin> set ks"
      using Cons.prems(1,2) ik unfolding no_conflict_iff by (metis distinct.simps(2) list.set_intros(1,2))
    moreover have "apply_rec b ik log k = (if delFlag ik = 1 then None else Some (payload_of b ik))"
      using True by (simp add: apply_rec_def)
    ultimately show ?thesis using IH ik True step by (cases ik) (auto simp: iKey_def)
  next
    case False
    then have "iKey False k \<noteq> ik \<and> iKey True k \<noteq> ik" by (auto simp: iKey_def)
    moreover have "apply_rec b ik log k = log k" using False by (simp add: apply_rec_def)
    ultimately show ?thesis using IH step by simp
  qed
qed

lemma recover_loop_read_entries:
  "read_entries n r = Inr (es, r') \<Longrightarrow> recover_loop n r log = replay_all es log"
proof (induction n arbitrary: r log es)
  case 0
  then show ?case by simp
next
  case (Suc n)
  show ?case
  proof (cases "reader_next r")
    case (Pair res r1)
    show ?thesis
    proof (cases res)
      case (Inl e)
      then show ?thesis using Suc.prems Pair by simp
    next
      case (Inr x)
      show ?thesis
      proof (cases x)
        case None
        then show ?thesis using Suc.prems Pair Inr by simp
      next
        case (Some d)
        then obtain ds where es: "es = d # ds" and rest: "read_entries n r1 = Inr (ds, r')"
          using Suc.prems Pair Inr by (auto split: sum.splits)
        show ?thesis
          using Suc.IH [OF rest] Pair Inr Some es by (simp split: sum.splits)
      qed
    qed
  qed
qed

lemma recover_group_entries:
  assumes "length (group_body es) < 2^32"
  shows "recover_groups [(group_body es, word_of_nat (length es))] log = replay_all es log"
proof -
  have "length es < 2^32" using assms length_group_body [of es] by linarith
  then have u: "unat (word_of_nat (length es) :: u32) = length es" by (simp add: unat_u32_of_nat)
  have re: "read_entries (length es) \<lparr>r_logData = group_body es, r_offset = 0, r_entryCount = word_of_nat (length es)\<rparr>
      = Inr (es, \<lparr>r_logData = group_body es, r_offset = word_of_nat (length (group_body es)),
                   r_entryCount = word_of_nat (length es) - word_of_nat (length es)\<rparr>)"
    using read_entries_frames [of "[]" es "[]" "word_of_nat (length es)"] assms u by simp
  have "recover_loop (length es) \<lparr>r_logData = group_body es, r_offset = 0, r_entryCount = word_of_nat (length es)\<rparr> log
      = replay_all es log"
    by (rule recover_loop_read_entries [OF re])
  moreover have "replay_all es log = (None, snd (replay_all es log)) \<or> (\<exists>e. replay_all es log = (Some e, snd (replay_all es log)))"
    by (cases "fst (replay_all es log)") (auto simp: prod_eq_iff)
  ultimately show ?thesis using u by (auto split: option.splits prod.splits)
qed

lemma snd_startRecover: "snd (startRecover gs) = snd (recover_groups gs Map.empty)"
  by (simp add: startRecover_def split: prod.splits)

theorem tinyWrite_recover:
  assumes wf: "block_wf b" and blk: "m_blockCache db (tb_ID tb) = Some b"
    and ks: "distinct ks" "set ks = dom (b_records b)" "no_conflict ks"
    and len: "length (group_body (map (entry_of b) ks)) < 2^32"
  shows "tinyWrite ks tb db = Inr (db\<lparr>m_wal := m_wal db @ [(tb_ID tb, map (entry_of b) ks)]\<rparr>)
       \<and> startRecover [(group_body (map (entry_of b) ks), word_of_nat (length ks))] = (None, blk_view b)"
proof -
  let ?es = "map (entry_of b) ks"
  have w: "write_records (b_data b) (b_records b) ks = Inr ?es"
    using write_records_wf [OF wf] ks(2) by simp
  have fl: "\<forall>ik\<in>set ks. delFlag ik \<le> 1" using wf ks(2) by (auto simp: block_wf_def)
  have view: "fold (apply_rec b) ks Map.empty = blk_view b"
  proof
    fix k
    show "fold (apply_rec b) ks Map.empty k = blk_view b k"
      using fold_apply_rec [OF ks(1,3) fl, of b Map.empty k] ks(2) by (auto simp: blk_view_def)
  qed
  have rg: "recover_groups [(group_body ?es, word_of_nat (length ks))] Map.empty = (None, blk_view b)"
    using recover_group_entries [OF len, of Map.empty] replay_all_entries [of b ks Map.empty] view by simp
  show ?thesis using blk w rg by (simp add: tinyWrite_def startRecover_def)
qed

subsection \<open>Map order in recovery\<close>

lemma m_wal_mdb_put [simp]: "m_wal (snd (mdb_put k v db)) = m_wal db"
  by (simp add: mdb_put_def Let_def split: prod.splits option.splits)

lemma m_timeMark_mdb_put [simp]: "m_timeMark (snd (mdb_put k v db)) = m_timeMark db"
  by (simp add: mdb_put_def Let_def split: prod.splits option.splits)

lemma m_applied_mdb_put [simp]: "m_applied (snd (mdb_put k v db)) = m_applied db"
  by (simp add: mdb_put_def Let_def split: prod.splits option.splits)

lemma m_wal_mdb_delete [simp]: "m_wal (mdb_delete k db) = m_wal db"
  by (simp add: mdb_delete_def Let_def)

lemma block_wf_newBlock: "block_wf newBlock"
  by (simp add: block_wf_def newBlock_def)

lemma put_then_delete_block:
  "m_blockCache (mdb_delete 7 (snd (mdb_put 7 [1] demo_db))) 5 =
     Some \<lparr>b_count = 1, b_data = put_bytes (iKey False 7) [1] @ put_bytes (iKey True 7) (le_enc 8 (5::i64)),
           b_records = [iKey False 7 \<mapsto> 0, iKey True 7 \<mapsto> 14]\<rparr>"
  by (simp add: mdb_put_def mdb_delete_def cur_block_def demo_db_def newBlock_def block_put_ok iKey_def)

text \<open>C2: A put and a delete of the same key in one tiny batch are both kept in the block; tinyWrite writes them in Go map order, and recovery keeps the value under one order and drops the key under the other.\<close>

theorem recovery_depends_on_map_order:
  "dom (b_records (the (m_blockCache (mdb_delete 7 (snd (mdb_put 7 [1] demo_db))) 5))) = {iKey False 7, iKey True 7}
   \<and> map_sum id recover_wal (tinyWrite [iKey False 7, iKey True 7] (m_tinyBatch demo_db) (mdb_delete 7 (snd (mdb_put 7 [1] demo_db)))) = Inr Map.empty
   \<and> map_sum id recover_wal (tinyWrite [iKey True 7, iKey False 7] (m_tinyBatch demo_db) (mdb_delete 7 (snd (mdb_put 7 [1] demo_db)))) = Inr [7 \<mapsto> [1]]"
proof -
  let ?db = "mdb_delete 7 (snd (mdb_put 7 [1] demo_db))"
  let ?F = "iKey False 7" and ?T = "iKey True 7"
  let ?b = "\<lparr>b_count = 1, b_data = put_bytes ?F [1] @ put_bytes ?T (le_enc 8 (5::i64)),
           b_records = [?F \<mapsto> 0, ?T \<mapsto> 14]\<rparr>"
  have blk: "m_blockCache ?db 5 = Some ?b" by (rule put_then_delete_block)
  have r1: "read_record (b_data ?b) 0 = Inr (put_bytes ?F [1])"
    using read_record_put [of "[1]" "[]" ?F "put_bytes ?T (le_enc 8 (5::i64))"] by simp
  have r2: "read_record (b_data ?b) 14 = Inr (put_bytes ?T (le_enc 8 (5::i64)))"
    using read_record_put [of "le_enc 8 (5::i64)" "put_bytes ?F [1]" ?T "[]"] by simp
  have FT: "?F \<noteq> ?T" by (simp add: iKey_def)
  have wf: "block_wf ?b"
    using r1 r2 FT by (auto simp: block_wf_def rec_ok_def iKey_def)
  have p1: "payload_of ?b ?F = [1]" using r1 FT by (simp add: payload_of_def)
  have p2: "payload_of ?b ?T = le_enc 8 (5::i64)" using r2 FT by (simp add: payload_of_def)
  have dom: "dom (b_records ?b) = {?F, ?T}" by auto
  have tw: "tinyWrite ks (m_tinyBatch demo_db) ?db = Inr (?db\<lparr>m_wal := m_wal ?db @ [(5, map (entry_of ?b) ks)]\<rparr>)"
    if "set ks \<subseteq> {?F, ?T}" for ks
    using write_records_wf [OF wf, of ks] that blk dom by (simp add: tinyWrite_def demo_db_def)
  have wal: "m_wal ?db = []" by (simp add: demo_db_def)
  have rw: "recover_wal (?db\<lparr>m_wal := [(5, map (entry_of ?b) ks)]\<rparr>) = fold (apply_rec ?b) ks Map.empty"
    if "ks = [?F, ?T] \<or> ks = [?T, ?F]" for ks
  proof -
    have "length (group_body (map (entry_of ?b) ks)) < 2^32"
      using that by (auto simp: length_group_body entry_of_def p1 p2)
    from recover_group_entries [OF this, of Map.empty] show ?thesis
      by (simp add: recover_wal_def snd_startRecover replay_all_entries del: recover_groups.simps)
  qed
  show ?thesis
    using tw [of "[?F, ?T]"] tw [of "[?T, ?F]"] rw [of "[?F, ?T]"] rw [of "[?T, ?F]"] blk dom wal p1 FT
    by (simp add: apply_rec_def iKey_def)
qed

subsection \<open>Moving markers, releasing logs, ticks and commits\<close>

lemma move_loop_cases:
  "snd (move_loop b ks db) = db \<or> (\<exists>k. snd (move_loop b ks db) = mdb_delete k db)"
  by (induction ks) (auto simp: Let_def split: option.splits sum.splits)

lemma move_loop_no_panic: "fst (move_loop b ks db) \<noteq> Some (Panic msg)"
  by (induction ks) (auto simp: Let_def dberr_def dt_readRaw_def split: option.splits sum.splits if_splits)

text \<open>C18: move leaves the memdb unchanged or reissues the delete of exactly one key: it returns after the first deletion marker whose TimeID still has a block.\<close>

theorem move_reissues_at_most_one:
  "snd (move ks t db) = db \<or> (\<exists>k. snd (move ks t db) = mdb_delete k db)"
  using move_loop_cases by (simp add: move_def split: option.splits)

lemma mdb_delete_keeps_blocks: "m_blockCache db t \<noteq> None \<Longrightarrow> m_blockCache (mdb_delete k db) t \<noteq> None"
  by (simp add: mdb_delete_def Let_def)

lemma m_applied_mdb_delete [simp]: "m_applied (mdb_delete k db) = m_applied db"
  by (simp add: mdb_delete_def Let_def)

text \<open>C17: releaseLog of a TimeID without a block panics on the nil block in move, so its errEntryDoesNotExist return is unreachable.\<close>

theorem releaseLog_missing_block_panics:
  "m_blockCache db t = None \<Longrightarrow> releaseLog ks t db = (Some (Panic ''nil pointer dereference''), db)"
  by (simp add: releaseLog_def move_def)

theorem releaseLog_present:
  assumes "m_blockCache db t \<noteq> None"
  shows "fst (releaseLog ks t db) = None \<and> m_blockCache (snd (releaseLog ks t db)) t = None
    \<and> m_applied (snd (releaseLog ks t db)) = m_applied db @ [t]"
proof -
  obtain b where b: "m_blockCache db t = Some b" using assms by auto
  let ?r = "move_loop b (filter (\<lambda>ik. delFlag ik = 1) ks) db"
  have mv: "move ks t db = ?r" by (simp add: move_def b)
  have np: "\<forall>msg. fst ?r \<noteq> Some (Panic msg)" by (simp add: move_loop_no_panic)
  have keep: "m_blockCache (snd ?r) t \<noteq> None \<and> m_applied (snd ?r) = m_applied db"
    using move_loop_cases [of b "filter (\<lambda>ik. delFlag ik = 1) ks" db] assms mdb_delete_keeps_blocks by auto
  obtain res db1 where r: "?r = (res, db1)" by (cases ?r)
  show ?thesis
    using np keep mv r by (auto simp: releaseLog_def split: option.splits go_error.splits)
qed

text \<open>C19: One tick of tinyBatchLoop dispatches the tiny batch only when it is non-empty, and in every case starts a fresh tiny batch whose new TimeID is added to the Time-Mark; an empty tiny batch is dropped without releasing its TimeID.\<close>

theorem tick_spec:
  "m_queue (tick now db) = (if tb_len (m_tinyBatch db) \<noteq> 0 then m_queue db @ [m_tinyBatch db] else m_queue db)
   \<and> m_tinyBatch (tick now db) = \<lparr>tb_ID = now, tb_len = 0, tb_managed = False, tb_done = False\<rparr>
   \<and> m_timeMark (tick now db) = add now (m_timeMark db)
   \<and> m_blockCache (tick now db) = m_blockCache db"
  by (simp add: tick_def newTinyBatch_def newTimeID_def)

theorem tinyCommit_releases:
  assumes "tb_len tb \<noteq> 0" "\<not> tb_managed tb" "tinyWrite ks tb db = Inr db1"
    "records (m_timeMark db1) (tb_ID tb) = Some \<lparr>refs = 1, lastUnref = u\<rparr>"
  shows "fst (tinyCommit ks tb db) = None
    \<and> records (m_timeMark (snd (snd (tinyCommit ks tb db)))) (tb_ID tb) = None
    \<and> releasedRecords (m_timeMark (snd (snd (tinyCommit ks tb db)))) (tb_ID tb)
        = Some \<lparr>refs = 0, lastUnref = lastUnref (timeRecord (m_timeMark db1))\<rparr>"
  using assms by (simp add: tinyCommit_def release_def)

subsection \<open>Put and delete on the memdb\<close>

lemma cur_block_wf: "mdb_wf db \<Longrightarrow> block_wf (cur_block db)"
  by (auto simp: mdb_wf_def cur_block_def block_wf_newBlock split: option.splits)

lemma payload_of_put:
  assumes "length v + 13 < 2^32" "length (b_data b) + length v + 13 < 2^63"
  shows "payload_of (snd (block_put ik v b)) ik = v"
  using read_record_put [OF assms, of ik "[]"] assms by (simp add: block_put_ok payload_of_def)

text \<open>C9: Put into the memdb with a payload below the size bounds succeeds, keeps every cached block well formed, makes the current block map the key to the payload, and counts one write in the tiny batch.\<close>

theorem mdb_put_spec:
  assumes "mdb_wf db" "length v + 13 < 2^32" "length (b_data (cur_block db)) + length v + 13 < 2^63"
  shows "fst (mdb_put k v db) = None \<and> mdb_wf (snd (mdb_put k v db))
    \<and> blk_view (the (m_blockCache (snd (mdb_put k v db)) (tb_ID (m_tinyBatch db)))) k = Some v
    \<and> tb_len (m_tinyBatch (snd (mdb_put k v db))) = tb_len (m_tinyBatch db) + 1"
proof -
  let ?b = "snd (block_put (iKey False k) v (cur_block db))"
  have ok: "fst (block_put (iKey False k) v (cur_block db)) = None" using assms(2,3) by (simp add: block_put_ok)
  have wf: "block_wf ?b" using block_put_wf [OF cur_block_wf [OF assms(1)] _ assms(2,3)] by (simp add: iKey_def)
  obtain err b' where bp: "block_put (iKey False k) v (cur_block db) = (err, b')"
    by (cases "block_put (iKey False k) v (cur_block db)")
  have put: "mdb_put k v db = (None, db\<lparr>m_blockCache := (m_blockCache db)(tb_ID (m_tinyBatch db) \<mapsto> ?b),
      m_tinyBatch := (m_tinyBatch db)\<lparr>tb_len := tb_len (m_tinyBatch db) + 1\<rparr>\<rparr>)"
    using ok bp by (simp add: mdb_put_def)
  have dom: "b_records ?b (iKey False k) \<noteq> None" using assms(2,3) by (simp add: block_put_ok)
  have "blk_view ?b k = Some v"
    using dom payload_of_put [OF assms(2,3), of "iKey False k"] by (auto simp: blk_view_def)
  then show ?thesis using put wf assms(1) by (auto simp: mdb_wf_def)
qed

theorem mdb_delete_spec:
  assumes "mdb_wf db" "length (b_data (cur_block db)) + 21 < 2^63"
  shows "mdb_wf (mdb_delete k db)
    \<and> payload_of (the (m_blockCache (mdb_delete k db) (tb_ID (m_tinyBatch db)))) (iKey True k)
        = le_enc 8 (tb_ID (m_tinyBatch db))
    \<and> tb_len (m_tinyBatch (mdb_delete k db)) = tb_len (m_tinyBatch db) + 1"
proof -
  let ?t = "tb_ID (m_tinyBatch db)"
  have l: "length (le_enc 8 ?t) + 13 < 2^32" "length (b_data (cur_block db)) + length (le_enc 8 ?t) + 13 < 2^63"
    using assms(2) by simp_all
  have wf: "block_wf (snd (block_put (iKey True k) (le_enc 8 ?t) (cur_block db)))"
    using block_put_wf [OF cur_block_wf [OF assms(1)] _ l] by (simp add: iKey_def)
  then show ?thesis using assms(1) payload_of_put [OF l, of "iKey True k"]
    by (auto simp: mdb_wf_def mdb_delete_def Let_def)
qed

subsection \<open>Put sequences\<close>

lemma payload_of_put_other:
  assumes "block_wf b" "ik' \<noteq> ik" "length v + 13 < 2^32" "length (b_data b) + length v + 13 < 2^63"
  shows "payload_of (snd (block_put ik v b)) ik' = payload_of b ik'"
proof (cases "b_records b ik'")
  case None
  then show ?thesis using assms by (simp add: block_put_ok payload_of_def)
next
  case (Some off)
  then have "rec_ok (b_data b) off ik'" using assms(1) by (simp add: block_wf_def)
  then obtain r where "read_record (b_data b) off = Inr r" by (auto simp: rec_ok_def split: sum.splits)
  then show ?thesis using Some assms by (simp add: block_put_ok payload_of_def read_record_append)
qed

lemma blk_view_put:
  assumes "block_wf b" "length v + 13 < 2^32" "length (b_data b) + length v + 13 < 2^63"
  shows "blk_view (snd (block_put (iKey False k) v b)) = (blk_view b)(k \<mapsto> v)"
proof
  fix k'
  show "blk_view (snd (block_put (iKey False k) v b)) k' = ((blk_view b)(k \<mapsto> v)) k'"
  proof (cases "k' = k")
    case True
    then show ?thesis using payload_of_put [OF assms(2,3)] assms(2,3) by (simp add: blk_view_def block_put_ok)
  next
    case False
    then have ne: "iKey False k' \<noteq> iKey False k" by (simp add: iKey_def)
    have r: "b_records (snd (block_put (iKey False k) v b)) (iKey False k') = b_records b (iKey False k')"
      using ne assms(2,3) by (simp add: block_put_ok)
    have p: "payload_of (snd (block_put (iKey False k) v b)) (iKey False k') = payload_of b (iKey False k')"
      by (rule payload_of_put_other [OF assms(1) ne assms(2,3)])
    show ?thesis using False by (simp only: blk_view_def r p) (simp add: blk_view_def)
  qed
qed

lemma mdb_put_ok:
  assumes "length v + 13 < 2^32" "length (b_data (cur_block db)) + length v + 13 < 2^63"
  shows "m_blockCache (snd (mdb_put k v db)) = (m_blockCache db)(tb_ID (m_tinyBatch db) \<mapsto> snd (block_put (iKey False k) v (cur_block db)))
    \<and> tb_ID (m_tinyBatch (snd (mdb_put k v db))) = tb_ID (m_tinyBatch db)"
proof -
  obtain err b' where bp: "block_put (iKey False k) v (cur_block db) = (err, b')"
    by (cases "block_put (iKey False k) v (cur_block db)")
  have "err = None" using bp assms by (simp add: block_put_ok)
  then show ?thesis using bp by (simp add: mdb_put_def)
qed

lemma cur_block_mdb_put:
  assumes "length v + 13 < 2^32" "length (b_data (cur_block db)) + length v + 13 < 2^63"
  shows "cur_block (snd (mdb_put k v db)) = snd (block_put (iKey False k) v (cur_block db))"
  using mdb_put_ok [OF assms, of k] by (simp add: cur_block_def)

lemma blk_view_newBlock: "blk_view newBlock = Map.empty"
  by (simp add: blk_view_def newBlock_def fun_eq_iff)

lemma length_entry_of: "length (entry_of b ik) = 9 + length (payload_of b ik)"
  by (simp add: entry_of_def)

lemma flag0_iKey: "delFlag ik = 0 \<Longrightarrow> ik = iKey False (key ik)"
  by (cases ik) (simp add: iKey_def)

subsection \<open>Examples\<close>

theorem block_put_spec_witness:
  "block_wf newBlock \<and> delFlag (iKey False 7) \<le> 1 \<and> length [1::byte] + 13 < 2^32
   \<and> length (b_data newBlock) + length [1::byte] + 13 < 2^63
   \<and> fst (block_put (iKey False 7) [1] newBlock) = None
   \<and> read_record (b_data (snd (block_put (iKey False 7) [1] newBlock))) 0 = Inr (put_bytes (iKey False 7) [1])"
proof -
  have h: "block_wf newBlock" "delFlag (iKey False 7) \<le> 1" "length [1::byte] + 13 < 2^32"
    "length (b_data newBlock) + length [1::byte] + 13 < 2^63"
    by (rule block_wf_newBlock) (simp_all add: iKey_def newBlock_def)
  show ?thesis using block_put_spec [OF h] h by (simp add: newBlock_def)
qed

lemma demo_put_block:
  "m_blockCache (snd (mdb_put 7 [1] demo_db)) 5 =
     Some \<lparr>b_count = 1, b_data = put_bytes (iKey False 7) [1], b_records = [iKey False 7 \<mapsto> 0]\<rparr>"
  by (simp add: mdb_put_def cur_block_def demo_db_def newBlock_def block_put_ok iKey_def)

theorem tinyWrite_recover_witness:
  "block_wf \<lparr>b_count = 1, b_data = put_bytes (iKey False 7) [1], b_records = [iKey False 7 \<mapsto> 0]\<rparr>
   \<and> m_blockCache (snd (mdb_put 7 [1] demo_db)) (tb_ID (m_tinyBatch demo_db))
       = Some \<lparr>b_count = 1, b_data = put_bytes (iKey False 7) [1], b_records = [iKey False 7 \<mapsto> 0]\<rparr>
   \<and> distinct [iKey False 7] \<and> no_conflict [iKey False 7]
   \<and> set [iKey False 7] = dom (b_records \<lparr>b_count = 1, b_data = put_bytes (iKey False 7) [1], b_records = [iKey False 7 \<mapsto> 0]\<rparr>)
   \<and> length (group_body (map (entry_of \<lparr>b_count = 1, b_data = put_bytes (iKey False 7) [1], b_records = [iKey False 7 \<mapsto> 0]\<rparr>) [iKey False 7])) < 2^32
   \<and> startRecover [(group_body (map (entry_of \<lparr>b_count = 1, b_data = put_bytes (iKey False 7) [1], b_records = [iKey False 7 \<mapsto> 0]\<rparr>) [iKey False 7]), 1)]
       = (None, blk_view \<lparr>b_count = 1, b_data = put_bytes (iKey False 7) [1], b_records = [iKey False 7 \<mapsto> 0]\<rparr>)"
proof -
  let ?b = "\<lparr>b_count = 1, b_data = put_bytes (iKey False 7) [1], b_records = [iKey False 7 \<mapsto> 0]\<rparr>"
  have r: "read_record (b_data ?b) 0 = Inr (put_bytes (iKey False 7) [1])"
    using read_record_put [of "[1]" "[]" "iKey False 7" "[]"] by simp
  have wf: "block_wf ?b" using r by (simp add: block_wf_def rec_ok_def iKey_def)
  have blk: "m_blockCache (snd (mdb_put 7 [1] demo_db)) (tb_ID (m_tinyBatch demo_db)) = Some ?b"
    using demo_put_block by (simp add: demo_db_def)
  have ks: "distinct [iKey False 7]" "set [iKey False 7] = dom (b_records ?b)" "no_conflict [iKey False 7]"
    by (simp_all add: no_conflict_def iKey_def)
  have p: "payload_of ?b (iKey False 7) = [1]" using r by (simp add: payload_of_def)
  have len: "length (group_body (map (entry_of ?b) [iKey False 7])) < 2^32"
    by (simp add: length_group_body entry_of_def p)
  show ?thesis using tinyWrite_recover [OF wf blk ks len] wf blk ks len by simp
qed


theorem releaseLog_missing_block_panics_witness:
  "m_blockCache demo_db 9 = None
   \<and> releaseLog [] 9 demo_db = (Some (Panic ''nil pointer dereference''), demo_db)"
proof -
  have h: "m_blockCache demo_db 9 = None" by (simp add: demo_db_def)
  show ?thesis using releaseLog_missing_block_panics [OF h] h by simp
qed

theorem releaseLog_present_witness:
  "m_blockCache (snd (mdb_put 7 [1] demo_db)) 5 \<noteq> None
   \<and> fst (releaseLog [iKey False 7] 5 (snd (mdb_put 7 [1] demo_db))) = None
   \<and> m_blockCache (snd (releaseLog [iKey False 7] 5 (snd (mdb_put 7 [1] demo_db)))) 5 = None
   \<and> m_applied (snd (releaseLog [iKey False 7] 5 (snd (mdb_put 7 [1] demo_db)))) = [5]"
proof -
  have h: "m_blockCache (snd (mdb_put 7 [1] demo_db)) 5 \<noteq> None" by (simp add: demo_put_block)
  have a: "m_applied (snd (mdb_put 7 [1] demo_db)) = []" by (simp add: demo_db_def)
  show ?thesis using releaseLog_present [OF h, of "[iKey False 7]"] h a by simp
qed

theorem mdb_put_spec_witness:
  "mdb_wf demo_db \<and> length [1::byte] + 13 < 2^32 \<and> length (b_data (cur_block demo_db)) + length [1::byte] + 13 < 2^63
   \<and> fst (mdb_put 7 [1] demo_db) = None
   \<and> blk_view (the (m_blockCache (snd (mdb_put 7 [1] demo_db)) 5)) 7 = Some [1]"
proof -
  have h: "mdb_wf demo_db" "length [1::byte] + 13 < 2^32" "length (b_data (cur_block demo_db)) + length [1::byte] + 13 < 2^63"
    by (simp_all add: mdb_wf_def demo_db_def cur_block_def newBlock_def)
  show ?thesis using mdb_put_spec [OF h, of 7] h by (simp add: demo_db_def)
qed

theorem mdb_delete_spec_witness:
  "mdb_wf demo_db \<and> length (b_data (cur_block demo_db)) + 21 < 2^63
   \<and> mdb_wf (mdb_delete 7 demo_db)
   \<and> payload_of (the (m_blockCache (mdb_delete 7 demo_db) 5)) (iKey True 7) = le_enc 8 (5::i64)"
proof -
  have h: "mdb_wf demo_db" "length (b_data (cur_block demo_db)) + 21 < 2^63"
    by (simp_all add: mdb_wf_def demo_db_def cur_block_def newBlock_def)
  show ?thesis using mdb_delete_spec [OF h, of 7] h by (simp add: demo_db_def)
qed

theorem tinyCommit_releases_witness:
  "tb_len (m_tinyBatch (snd (mdb_put 7 [1] demo_db))) \<noteq> 0
   \<and> \<not> tb_managed (m_tinyBatch (snd (mdb_put 7 [1] demo_db)))
   \<and> tinyWrite [iKey False 7] (m_tinyBatch (snd (mdb_put 7 [1] demo_db))) (snd (mdb_put 7 [1] demo_db))
       = Inr ((snd (mdb_put 7 [1] demo_db))\<lparr>m_wal := [(5, [entry_of \<lparr>b_count = 1, b_data = put_bytes (iKey False 7) [1], b_records = [iKey False 7 \<mapsto> 0]\<rparr> (iKey False 7)])]\<rparr>)
   \<and> records (m_timeMark ((snd (mdb_put 7 [1] demo_db))\<lparr>m_wal := [(5, [entry_of \<lparr>b_count = 1, b_data = put_bytes (iKey False 7) [1], b_records = [iKey False 7 \<mapsto> 0]\<rparr> (iKey False 7)])]\<rparr>)) 5
       = Some \<lparr>refs = 1, lastUnref = 0\<rparr>
   \<and> fst (tinyCommit [iKey False 7] (m_tinyBatch (snd (mdb_put 7 [1] demo_db))) (snd (mdb_put 7 [1] demo_db))) = None
   \<and> records (m_timeMark (snd (snd (tinyCommit [iKey False 7] (m_tinyBatch (snd (mdb_put 7 [1] demo_db))) (snd (mdb_put 7 [1] demo_db)))))) 5 = None"
proof -
  let ?db = "snd (mdb_put 7 [1] demo_db)"
  let ?b = "\<lparr>b_count = 1, b_data = put_bytes (iKey False 7) [1], b_records = [iKey False 7 \<mapsto> 0]\<rparr>"
  have r: "read_record (b_data ?b) 0 = Inr (put_bytes (iKey False 7) [1])"
    using read_record_put [of "[1]" "[]" "iKey False 7" "[]"] by simp
  have wf: "block_wf ?b" using r by (simp add: block_wf_def rec_ok_def iKey_def)
  have tb: "m_tinyBatch ?db = \<lparr>tb_ID = 5, tb_len = 1, tb_managed = False, tb_done = False\<rparr>"
    by (simp add: mdb_put_def cur_block_def demo_db_def newBlock_def block_put_ok iKey_def)
  have wal: "m_wal ?db = []" by (simp add: demo_db_def)
  have h1: "tb_len (m_tinyBatch ?db) \<noteq> 0" "\<not> tb_managed (m_tinyBatch ?db)" by (simp_all add: tb)
  have h2: "tinyWrite [iKey False 7] (m_tinyBatch ?db) ?db = Inr (?db\<lparr>m_wal := [(5, [entry_of ?b (iKey False 7)])]\<rparr>)"
    using write_records_wf [OF wf, of "[iKey False 7]"] demo_put_block tb wal by (simp add: tinyWrite_def)
  have h3: "records (m_timeMark (?db\<lparr>m_wal := [(5, [entry_of ?b (iKey False 7)])]\<rparr>)) 5 = Some \<lparr>refs = 1, lastUnref = 0\<rparr>"
    by (simp add: demo_db_def newTimeID_def add_def)
  have "tb_ID (m_tinyBatch ?db) = 5" by (simp add: tb)
  then show ?thesis using tinyCommit_releases [OF h1 h2, of 0] h1 h2 h3 by simp
qed

end
