(* ===== verification/DbCore.thy ===== *)
theory DbCore
  imports WalReader
begin

text \<open>
  The core bookkeeping of the database (\<open>db_internal.go\<close>).  The state
  \<open>udb\<close> holds the persisted \<open>dbInfo\<close> counters, the closed flag, the
  tiny-batch buffer with its record count, and the WAL as the list of groups
  signalled written, each with its log sequence.
  \<^item> The atomic counters \<open>nextSeq\<close>, \<open>incount\<close>/\<open>decount\<close> and
    \<open>addBlocks\<close> are word arithmetic that wraps.
  \<^item> \<open>setEntry\<close> picks the sequence of a new entry.  \<open>assign_seq\<close> models that
    part, up to the panic on sequence 0.
  \<^item> \<open>tinyCommit\<close> and \<open>commit\<close> split a buffer of frames
    \<open>| u32 dataLen | data |\<close> with a \<open>uint32\<close> offset, and append the pieces to
    one WAL group.
  \<^item> \<open>lookup\<close> merges the time-window entries of the matching topics, newest
    first, up to the query limit.
  The trie and the time window are not in the sources, so \<open>lookup\<close> takes the
  trie's topics and the window lookup as arguments.
\<close>

record dbInfo =
  di_encryption :: "8 word"
  di_sequence :: u64
  di_logSequence :: u64
  di_count :: u64
  di_blockIdx :: "32 word"
  di_windowIdx :: "32 word"
  di_cacheID :: u64

record udb =
  u_info :: dbInfo
  u_closed :: u32
  u_tbBuf :: "byte list"
  u_tbCount :: u32
  u_wal :: "(u64 \<times> byte list list) list"

subsection \<open>Counters and the closed flag\<close>

definition seq :: "udb \<Rightarrow> u64" where
  "seq db = di_sequence (u_info db)"

definition nextSeq :: "udb \<Rightarrow> u64 \<times> udb" where
  "nextSeq db = (let s = di_sequence (u_info db) + 1 in (s, db\<lparr>u_info := (u_info db)\<lparr>di_sequence := s\<rparr>\<rparr>))"

definition logSeq :: "udb \<Rightarrow> u64" where
  "logSeq db = di_logSequence (u_info db)"

definition setLogSeq :: "u64 \<Rightarrow> udb \<Rightarrow> udb" where
  "setLogSeq s db = db\<lparr>u_info := (u_info db)\<lparr>di_logSequence := s\<rparr>\<rparr>"

definition blocks :: "udb \<Rightarrow> 32 word" where
  "blocks db = di_blockIdx (u_info db)"

definition addBlocks :: "32 word \<Rightarrow> udb \<Rightarrow> 32 word \<times> udb" where
  "addBlocks n db = (let b = di_blockIdx (u_info db) + n in (b, db\<lparr>u_info := (u_info db)\<lparr>di_blockIdx := b\<rparr>\<rparr>))"

definition incount :: "u64 \<Rightarrow> udb \<Rightarrow> u64 \<times> udb" where
  "incount n db = (let c = di_count (u_info db) + n in (c, db\<lparr>u_info := (u_info db)\<lparr>di_count := c\<rparr>\<rparr>))"

text \<open>\<open>atomic.AddUint64(&db.count, -count)\<close>: subtraction modulo \<open>2^64\<close>.\<close>

definition decount :: "u64 \<Rightarrow> udb \<Rightarrow> u64 \<times> udb" where
  "decount n db = (let c = di_count (u_info db) + (- n) in (c, db\<lparr>u_info := (u_info db)\<lparr>di_count := c\<rparr>\<rparr>))"

definition db_setClosed :: "udb \<Rightarrow> bool \<times> udb" where
  "db_setClosed db = (if u_closed db = 0 then (True, db\<lparr>u_closed := 1\<rparr>) else (False, db))"

definition db_isClosed :: "udb \<Rightarrow> bool" where
  "db_isClosed db \<longleftrightarrow> u_closed db \<noteq> 0"

definition db_ok :: "udb \<Rightarrow> go_error option" where
  "db_ok db = (if db_isClosed db then Some (GoErr ''wal is closed'') else None)"

text \<open>\<open>DB.close\<close>: only the first call closes; the rest is waiting for goroutines.\<close>

definition db_close :: "udb \<Rightarrow> go_error option \<times> udb" where
  "db_close db = (case db_setClosed db of (False, db1) \<Rightarrow> (Some (dberr ErrClosed), db1) | (True, db1) \<Rightarrow> (None, db1))"

subsection \<open>Choosing the sequence of an entry\<close>

text \<open>
  \<open>setEntry\<close>: the sequence of the given message ID, else a leased slot of
  the topic, else \<open>nextSeq\<close>.  Sequence 0 panics.
\<close>

definition assign_seq :: "u64 option \<Rightarrow> u64 option \<Rightarrow> udb \<Rightarrow> go_error + (u64 \<times> udb)" where
  "assign_seq idSeq leased db =
     (let (s, db1) = (case idSeq of
                        Some s \<Rightarrow> (s, db)
                      | None \<Rightarrow> (case leased of Some s \<Rightarrow> (s, db) | None \<Rightarrow> nextSeq db))
      in if s = 0 then Inl (Panic ''db.setEntry: seq is zero'') else Inr (s, db1))"

subsection \<open>Committing a buffer of frames\<close>

text \<open>
  The loop shared by \<open>tinyCommit\<close> and \<open>commit\<close>.  The offset is a
  \<open>uint32\<close>, so \<open>offset+4\<close> and \<open>offset+dataLen\<close> wrap.  A slice out of
  range panics.  \<open>Append\<close> is the abstract WAL writer and does not fail here.
\<close>

fun frames_loop :: "nat \<Rightarrow> u32 \<Rightarrow> byte list \<Rightarrow> go_error + byte list list" where
  "frames_loop 0 off buf = Inr []"
| "frames_loop (Suc n) off buf =
     (case go_slice buf (unat off) (unat (off + 4)) of
        None \<Rightarrow> Inl (Panic ''slice bounds out of range'')
      | Some s \<Rightarrow>
          let dataLen = (le_dec s :: u32) in
          (case go_slice buf (unat (off + 4)) (unat (off + dataLen)) of
             None \<Rightarrow> Inl (Panic ''slice bounds out of range'')
           | Some data \<Rightarrow>
               (case frames_loop n (off + dataLen) buf of
                  Inl e \<Rightarrow> Inl e
                | Inr ds \<Rightarrow> Inr (data # ds))))"

text \<open>
  \<open>tinyCommit\<close>: fails on a closed database and does nothing for an empty
  tiny batch.  Otherwise it splits the buffer, stamps the log sequence with the
  current sequence and writes one group.  The deferred reset empties the tiny
  batch on every later path, the panic included.
\<close>

definition db_tinyCommit :: "udb \<Rightarrow> go_error option \<times> udb" where
  "db_tinyCommit db =
     (case db_ok db of
        Some e \<Rightarrow> (Some e, db)
      | None \<Rightarrow>
          if u_tbCount db = 0 then (None, db)
          else
            let reset = (\<lambda>d. d\<lparr>u_tbBuf := [], u_tbCount := 0\<rparr>) in
            (case frames_loop (unat (u_tbCount db)) 0 (u_tbBuf db) of
               Inl e \<Rightarrow> (Some e, reset db)
             | Inr ds \<Rightarrow>
                 let db1 = setLogSeq (seq db) db
                 in (None, reset (db1\<lparr>u_wal := u_wal db1 @ [(logSeq db1, ds)]\<rparr>))))"

text \<open>\<open>commit(l, buf)\<close>: the same loop over a batch buffer, with no empty test.\<close>

definition db_commit :: "nat \<Rightarrow> byte list \<Rightarrow> udb \<Rightarrow> go_error option \<times> udb" where
  "db_commit l buf db =
     (case db_ok db of
        Some e \<Rightarrow> (Some e, db)
      | None \<Rightarrow>
          (case frames_loop l 0 buf of
             Inl e \<Rightarrow> (Some e, db)
           | Inr ds \<Rightarrow>
               let db1 = setLogSeq (seq db) db
               in (None, db1\<lparr>u_wal := u_wal db1 @ [(logSeq db1, ds)]\<rparr>)))"

subsection \<open>Lookup\<close>

text \<open>
  \<open>DB.lookup\<close>.  The topics come from the trie, as (hash, offset).  \<open>wl\<close> is
  \<open>timeWindow.lookup(hash, offset, cutoff, limit)\<close> and returns sequences.
  \<open>sort.Slice\<close> is not stable.  Its result is modelled by a descending stable
  sort; any other result differs only in the order of equal keys.  The loop
  stops once more entries than the limit are collected.
\<close>

record query =
  q_topicHash :: u64
  q_seq :: u64

fun lookup_loop :: "(u64 \<Rightarrow> i64 \<Rightarrow> int \<Rightarrow> u64 list) \<Rightarrow> int \<Rightarrow> (u64 \<times> i64) list \<Rightarrow> query list \<Rightarrow> query list" where
  "lookup_loop wl lim [] acc = acc"
| "lookup_loop wl lim ((h, off) # ts) acc =
     (if int (length acc) > lim then acc
      else lookup_loop wl lim ts
             (acc @ map (\<lambda>s. \<lparr>q_topicHash = h, q_seq = s\<rparr>) (wl h off (lim - int (length acc)))))"

definition lookup :: "(u64 \<Rightarrow> i64 \<Rightarrow> int \<Rightarrow> u64 list) \<Rightarrow> int \<Rightarrow> (u64 \<times> i64) list \<Rightarrow> query list \<Rightarrow> query list" where
  "lookup wl lim topics acc =
     rev (sort_key q_seq (lookup_loop wl lim (rev (sort_key (\<lambda>t. sint (snd t)) topics)) acc))"

text \<open>
  The contract of \<open>timeWindow.lookup\<close> (specification 4.H--I): it yields at
  most \<open>limit\<close> entries.
\<close>

definition window_bounded :: "(u64 \<Rightarrow> i64 \<Rightarrow> int \<Rightarrow> u64 list) \<Rightarrow> bool" where
  "window_bounded wl \<longleftrightarrow> (\<forall>h off l. length (wl h off l) \<le> nat l)"

text \<open>An open database with sequence 5 and an empty tiny batch, for the examples.\<close>

definition demo_udb :: udb where
  "demo_udb = \<lparr>u_info = \<lparr>di_encryption = 0, di_sequence = 5, di_logSequence = 0, di_count = 0,
       di_blockIdx = 0, di_windowIdx = 0, di_cacheID = 0\<rparr>,
     u_closed = 0, u_tbBuf = [], u_tbCount = 0, u_wal = []\<rparr>"

subsection \<open>Properties\<close>

lemma frames_loop_frames:
  assumes "length pre + length (group_body ps) < 2^32"
  shows "frames_loop (length ps) (word_of_nat (length pre)) (pre @ group_body ps @ rest) = Inr ps"
  using assms
proof (induction ps arbitrary: pre)
  case Nil
  then show ?case by simp
next
  case (Cons p ps)
  let ?buf = "pre @ group_body (p # ps) @ rest" and ?off = "word_of_nat (length pre) :: u32"
  let ?dl = "word_of_nat (length p + 4) :: u32"
  have buf: "?buf = pre @ le_enc 4 ?dl @ p @ group_body ps @ rest"
    by (simp add: group_body_def frame_def)
  have lb: "length pre + (length p + 4) + length (group_body ps) < 2^32"
    using Cons.prems by (simp add: group_body_def)
  have u4: "unat (?off + 4) = length pre + 4"
    using unat_u32_add_nat [of "length pre" 4] lb by simp
  have s1: "go_slice ?buf (unat ?off) (unat (?off + 4)) = Some (le_enc 4 ?dl)"
    using lb by (subst u4) (simp add: buf unat_u32_of_nat)
  have dl: "(le_dec (le_enc 4 ?dl) :: u32) = ?dl" by (simp add: le_dec_le_enc)
  have ud: "unat (?off + ?dl) = length pre + (length p + 4)"
    using unat_u32_add_nat [of "length pre" "length p + 4"] lb by simp
  have s2: "go_slice ?buf (unat (?off + 4)) (unat (?off + ?dl)) = Some p"
    using lb by (subst u4, subst ud) (simp add: buf)
  have o: "?off + ?dl = word_of_nat (length (pre @ frame p))"
    by (simp add: frame_def)
  have IH: "frames_loop (length ps) (word_of_nat (length (pre @ frame p))) ((pre @ frame p) @ group_body ps @ rest) = Inr ps"
    using Cons.IH [of "pre @ frame p"] lb by (simp add: frame_def)
  have b2: "?buf = (pre @ frame p) @ group_body ps @ rest" by (simp add: group_body_def)
  show ?case
    using s1 s2 IH by (simp only: length_Cons frames_loop.simps dl o b2 [symmetric] option.case Let_def sum.case)
qed


text \<open>C5: DB.tinyCommit of an open database whose tiny-batch buffer holds the frames of payloads ps (below 4 GiB) writes exactly ps, in order, as one WAL group stamped with the current sequence, sets the log sequence, and empties the tiny batch.\<close>

theorem tinyCommit_roundtrip:
  assumes "\<not> db_isClosed db" "u_tbBuf db = group_body ps" "u_tbCount db = word_of_nat (length ps)"
    "ps \<noteq> []" "length (group_body ps) < 2^32"
  shows "db_tinyCommit db = (None, db\<lparr>u_info := (u_info db)\<lparr>di_logSequence := seq db\<rparr>,
            u_tbBuf := [], u_tbCount := 0, u_wal := u_wal db @ [(seq db, ps)]\<rparr>)"
proof -
  have lp: "length ps < 2^32" using assms(5) length_group_body [of ps] by linarith
  then have u: "unat (u_tbCount db) = length ps" using assms(3) by (simp add: unat_u32_of_nat)
  have nz: "u_tbCount db \<noteq> 0" using u assms(4) by auto
  have f: "frames_loop (length ps) 0 (group_body ps) = Inr ps"
    using frames_loop_frames [of "[]" ps "[]"] assms(5) by simp
  show ?thesis using assms(1,2) nz f u
    by (simp add: db_tinyCommit_def db_ok_def setLogSeq_def logSeq_def)
qed

theorem frames_loop_short_length_panics:
  assumes "unat off + 4 < 2^32" "unat off + 4 \<le> length buf"
    and "(le_dec (take 4 (drop (unat off) buf)) :: u32) < 4"
  shows "frames_loop (Suc n) off buf = Inl (Panic ''slice bounds out of range'')"
proof -
  let ?dl = "le_dec (take 4 (drop (unat off) buf)) :: u32"
  have u4: "unat (off + 4) = unat off + 4"
    using unat_add_lem [of off "4 :: u32"] assms(1) by simp
  have "unat ?dl < 4" using assms(3) by (simp add: word_less_nat_alt)
  moreover have "unat (off + ?dl) = unat off + unat ?dl"
    using assms(1) calculation by (simp add: unat_add_lem [symmetric])
  ultimately have "unat (off + ?dl) < unat (off + 4)" using u4 by simp
  then show ?thesis using assms(2) u4 by (simp add: go_slice_def Let_def)
qed

text \<open>C39: Without a message ID or leased slot, setEntry takes nextSeq, which adds one to the 64-bit sequence; at 2^64-1 it wraps to 0 and setEntry panics instead of returning.\<close>

theorem assign_seq_wraps:
  "assign_seq None None db =
     (if di_sequence (u_info db) = - 1 then Inl (Panic ''db.setEntry: seq is zero'')
      else Inr (di_sequence (u_info db) + 1, snd (nextSeq db)))
   \<and> unat (fst (nextSeq db)) = (if di_sequence (u_info db) = - 1 then 0 else unat (di_sequence (u_info db)) + 1)"
  by (auto simp: assign_seq_def nextSeq_def Let_def eq_neg_iff_add_eq_0 intro: unat_plus_one)

theorem count_wraps:
  "fst (decount n (snd (incount n db))) = di_count (u_info db)
   \<and> unat (fst (decount 1 db)) = (if di_count (u_info db) = 0 then 2^64 - 1 else unat (di_count (u_info db)) - 1)"
proof -
  have m: "unat (- 1 :: u64) = 2^64 - 1" by (simp only: unsigned_minus_1_eq_mask mask_eq_exp_minus_1) simp
  have "unat (c + - 1) = unat c - 1" if "c \<noteq> (0::u64)" for c
    using that by (simp add: unat_minus_one)
  then show ?thesis using m by (simp add: decount_def incount_def Let_def)
qed

theorem db_close_once:
  "fst (db_close db) = None \<Longrightarrow>
   fst (db_close (snd (db_close db))) = Some (dberr ErrClosed) \<and> db_ok (snd (db_close db)) \<noteq> None"
  by (auto simp: db_close_def db_setClosed_def db_ok_def db_isClosed_def split: if_splits)


lemma lookup_loop_bound:
  assumes "window_bounded wl" "int (length acc) \<le> lim"
  shows "int (length (lookup_loop wl lim ts acc)) \<le> lim \<and> set acc \<subseteq> set (lookup_loop wl lim ts acc)"
  using assms(2)
proof (induction ts arbitrary: acc)
  case Nil
  then show ?case by simp
next
  case (Cons t ts)
  obtain h off where t: "t = (h, off)" by (cases t)
  let ?new = "acc @ map (\<lambda>s. \<lparr>q_topicHash = h, q_seq = s\<rparr>) (wl h off (lim - int (length acc)))"
  have "length (wl h off (lim - int (length acc))) \<le> nat (lim - int (length acc))"
    using assms(1) by (simp add: window_bounded_def)
  then have "int (length ?new) \<le> lim" using Cons.prems by simp
  then show ?case using Cons.IH [of ?new] Cons.prems t by auto
qed

text \<open>C10: When the time-window lookup respects its limit, DB.lookup never returns more entries than the query limit, keeps the entries already collected, and returns them sorted newest sequence first.\<close>

theorem lookup_spec:
  assumes "window_bounded wl" "int (length acc) \<le> lim"
  shows "int (length (lookup wl lim topics acc)) \<le> lim
    \<and> sorted (map q_seq (rev (lookup wl lim topics acc)))
    \<and> set acc \<subseteq> set (lookup wl lim topics acc)"
  using lookup_loop_bound [OF assms, of "rev (sort_key (\<lambda>t. sint (snd t)) topics)"]
  by (simp add: lookup_def)

subsection \<open>Examples\<close>

theorem tinyCommit_roundtrip_witness:
  "\<not> db_isClosed (demo_udb\<lparr>u_tbBuf := group_body [[1, 2], [3]], u_tbCount := 2\<rparr>)
   \<and> db_tinyCommit (demo_udb\<lparr>u_tbBuf := group_body [[1, 2], [3]], u_tbCount := 2\<rparr>)
       = (None, demo_udb\<lparr>u_info := (u_info demo_udb)\<lparr>di_logSequence := 5\<rparr>, u_wal := [(5, [[1, 2], [3]])]\<rparr>)"
proof -
  let ?db = "demo_udb\<lparr>u_tbBuf := group_body [[1, 2], [3]], u_tbCount := 2\<rparr>"
  have h: "\<not> db_isClosed ?db" "u_tbBuf ?db = group_body [[1, 2], [3]]"
    "u_tbCount ?db = word_of_nat (length [[1, 2], [3::byte]])" "[[1, 2], [3::byte]] \<noteq> []"
    "length (group_body [[1, 2], [3::byte]]) < 2^32"
    by (simp_all add: db_isClosed_def demo_udb_def group_body_def)
  show ?thesis using tinyCommit_roundtrip [OF h] h(1) by (simp add: demo_udb_def seq_def)
qed

theorem frames_loop_short_length_panics_witness:
  "unat (0::u32) + 4 < 2^32 \<and> unat (0::u32) + 4 \<le> length [1, 0, 0, 0, 9 :: byte]
   \<and> (le_dec (take 4 (drop (unat (0::u32)) [1, 0, 0, 0, 9 :: byte])) :: u32) < 4
   \<and> frames_loop 1 0 [1, 0, 0, 0, 9] = Inl (Panic ''slice bounds out of range'')"
proof -
  have h: "unat (0::u32) + 4 < 2^32" "unat (0::u32) + 4 \<le> length [1, 0, 0, 0, 9 :: byte]"
    "(le_dec (take 4 (drop (unat (0::u32)) [1, 0, 0, 0, 9 :: byte])) :: u32) < 4"
    by simp_all
  show ?thesis using frames_loop_short_length_panics [OF h, of 0] h by simp
qed

theorem db_close_once_witness:
  "fst (db_close demo_udb) = None
   \<and> fst (db_close (snd (db_close demo_udb))) = Some (dberr ErrClosed)"
proof -
  have h: "fst (db_close demo_udb) = None" by (simp add: db_close_def db_setClosed_def demo_udb_def)
  show ?thesis using db_close_once [OF h] h by simp
qed

theorem lookup_spec_witness:
  "window_bounded (\<lambda>h off l. take (nat l) [h, h + 1, h + 2]) \<and> int (length ([] :: query list)) \<le> 4
   \<and> map q_seq (lookup (\<lambda>h off l. take (nat l) [h, h + 1, h + 2]) 4 [(1, 10), (5, 20)] []) = [7, 6, 5, 1]"
proof -
  have h: "window_bounded (\<lambda>h off l. take (nat l) [h, h + 1, h + 2])" "int (length ([] :: query list)) \<le> 4"
    by (simp_all add: window_bounded_def)
  have "map q_seq (lookup (\<lambda>h off l. take (nat l) [h, h + 1, h + 2]) 4 [(1, 10), (5, 20)] []) = [7, 6, 5, 1]"
    by (simp add: lookup_def word_le_def)
  with lookup_spec [OF h, of "[(1, 10), (5, 20)]"] h show ?thesis by blast
qed

end
