(* ===== verification/TraceFile.thy ===== *)
theory TraceFile
  imports LogHeader
begin

text \<open>
  The file helper of the key-value store (\<open>src/unnamed/part_000\<close>, lines
  12--85, package \<open>tracedb\<close>): a \<open>file\<close> is an open \<open>fs.FileManager\<close>
  with the size the store keeps for it.  \<open>extend\<close> grows it by \<open>size\<close> zero
  bytes and \<open>append\<close> writes at the end; both return the old size as the
  offset.  \<open>writeMarshalableAt\<close> and \<open>readUnmarshalableAt\<close> store and load an
  encoded value at an offset.  The WAL's \<open>_File\<close> (\<open>part_001\<close>, lines
  214--233) has the same two methods.
  The file system is not in the sources.  Its calls are modelled on the bytes
  of the file as \<open>os.File\<close> behaves: \<open>Truncate\<close> cuts or zero-extends,
  \<open>WriteAt\<close> past the end leaves a zero-filled hole, \<open>ReadAt\<close> of a non-empty
  buffer that runs past the end fails (an empty one reads nothing and
  succeeds), and a negative offset fails.  \<open>extend\<close> and \<open>append\<close> here are the
  file part of the methods; their \<open>Mmap\<close> call on a memory-mapped file is
  added in \<open>TraceMmap\<close>.  \<open>openFile\<close>
  takes the outcomes of the system calls as inputs; the cache itself is not
  modelled, only whether creating it fails and the cache ID.
  A marshaller is a function to bytes.  An unmarshaller is a partial function:
  \<open>None\<close> is the panic of a Go \<open>UnmarshalBinary\<close> on a short buffer.
\<close>

record tfile =
  tf_data :: "byte list"
  tf_size :: i64
  tf_memoryMap :: bool

text \<open>The \<open>os.File\<close> calls, on the bytes of the file.\<close>

definition os_truncate :: "byte list \<Rightarrow> i64 \<Rightarrow> go_error + byte list" where
  "os_truncate d n =
     (if sint n < 0 then Inl IOError
      else Inr (take (nat (sint n)) d @ replicate (nat (sint n) - length d) 0))"

definition os_writeAt :: "byte list \<Rightarrow> byte list \<Rightarrow> i64 \<Rightarrow> go_error + byte list" where
  "os_writeAt d buf off =
     (if sint off < 0 then Inl IOError
      else let p = nat (sint off)
           in Inr (take p d @ replicate (p - length d) 0 @ buf @ drop (p + length buf) d))"

definition os_readAt :: "byte list \<Rightarrow> nat \<Rightarrow> i64 \<Rightarrow> go_error + byte list" where
  "os_readAt d n off =
     (if sint off < 0 \<or> (0 < n \<and> nat (sint off) + n > length d) then Inl IOError
      else Inr (take n (drop (nat (sint off)) d)))"

definition tf_extend :: "tfile \<Rightarrow> u32 \<Rightarrow> (go_error + i64) \<times> tfile" where
  "tf_extend f sz =
     (let off = tf_size f
      in case os_truncate (tf_data f) (off + ucast sz) of
           Inl e \<Rightarrow> (Inl e, f)
         | Inr d \<Rightarrow> (Inr off, f\<lparr>tf_data := d, tf_size := off + ucast sz\<rparr>))"

definition tf_append :: "tfile \<Rightarrow> byte list \<Rightarrow> (go_error + i64) \<times> tfile" where
  "tf_append f data =
     (let off = tf_size f
      in case os_writeAt (tf_data f) data off of
           Inl e \<Rightarrow> (Inl e, f)
         | Inr d \<Rightarrow> (Inr off, f\<lparr>tf_data := d, tf_size := off + word_of_nat (length data)\<rparr>))"

definition tf_writeMarshalableAt :: "('a \<Rightarrow> byte list) \<Rightarrow> tfile \<Rightarrow> 'a \<Rightarrow> i64 \<Rightarrow> go_error option \<times> tfile" where
  "tf_writeMarshalableAt marshal f m off =
     (case os_writeAt (tf_data f) (marshal m) off of
        Inl e \<Rightarrow> (Some e, f)
      | Inr d \<Rightarrow> (None, f\<lparr>tf_data := d\<rparr>))"

definition tf_readUnmarshalableAt :: "(byte list \<Rightarrow> 'a option) \<Rightarrow> tfile \<Rightarrow> u32 \<Rightarrow> i64 \<Rightarrow> go_error + 'a" where
  "tf_readUnmarshalableAt unmarshal f sz off =
     (case os_readAt (tf_data f) (unat sz) off of
        Inl e \<Rightarrow> Inl e
      | Inr buf \<Rightarrow> (case unmarshal buf of None \<Rightarrow> Inl (Panic ''slice bounds out of range'') | Some m \<Rightarrow> Inr m))"

text \<open>
  The invariant of a file: the size the store keeps is the length of the file.
  A codec is sound when unmarshalling what was marshalled, followed by any
  bytes, gives the value back.
\<close>

definition tf_inv :: "tfile \<Rightarrow> bool" where
  "tf_inv f = (sint (tf_size f) = int (length (tf_data f)))"

definition codec_ok :: "('a \<Rightarrow> byte list) \<Rightarrow> (byte list \<Rightarrow> 'a option) \<Rightarrow> bool" where
  "codec_ok marshal unmarshal = (\<forall>m rest. unmarshal (marshal m @ rest) = Some m)"

text \<open>A new, empty file, and a log-info header for the examples.\<close>

definition tf_empty :: tfile where
  "tf_empty = \<lparr>tf_data = [], tf_size = 0, tf_memoryMap = False\<rparr>"

definition demo_logInfo :: logInfo where
  "demo_logInfo = \<lparr>li_version = 1, li_status = logStatusWritten, li_timeID = 7,
     li_entryCount = 2, li_size = 40, li_offset = 47\<rparr>"

text \<open>
  \<open>openFile\<close> (lines 20--40): the file system's \<open>OpenFile\<close> gives the
  file's bytes or an error, \<open>Stat\<close> may fail, and so may \<open>NewBigCache\<close>.
  Each error returns the file built so far: the zero \<open>file\<close> after a failed
  open, the open file with size 0 after a failed \<open>Stat\<close>, the sized file with
  cache ID 0 after a failed cache.  The cache ID is two \<open>rand.Uint32\<close>
  draws \<open>r1\<close>, \<open>r2\<close>, with \<open>uint64(r1)<<32 + uint64(r2)\<close>.  The file is
  returned with its cache ID.
\<close>

definition cache_id :: "u32 \<Rightarrow> u32 \<Rightarrow> u64" where
  "cache_id r1 r2 = push_bit 32 (ucast r1) + ucast r2"

definition tf_openFile :: "go_error + byte list \<Rightarrow> go_error option \<Rightarrow> go_error option \<Rightarrow> u32 \<Rightarrow> u32
                           \<Rightarrow> (tfile \<times> u64) \<times> go_error option" where
  "tf_openFile opened statErr cacheErr r1 r2 =
     (case opened of
        Inl err \<Rightarrow> ((tf_empty, 0), Some err)
      | Inr data \<Rightarrow>
          let f = tf_empty\<lparr>tf_data := data\<rparr> in
          case statErr of
            Some err \<Rightarrow> ((f, 0), Some err)
          | None \<Rightarrow>
              let f = f\<lparr>tf_size := word_of_nat (length data)\<rparr> in
              case cacheErr of
                Some err \<Rightarrow> ((f, 0), Some err)
              | None \<Rightarrow> ((f, cache_id r1 r2), None))"

subsection \<open>Writing at an offset\<close>

lemma write_at_bytes:
  fixes d buf :: "byte list" and p :: nat
  defines "D \<equiv> take p d @ replicate (p - length d) 0 @ buf @ drop (p + length buf) d"
  shows "take p D = take p d @ replicate (p - length d) 0"
    and "take (length buf) (drop p D) = buf"
    and "length D = max (length d) (p + length buf)"
proof -
  have l: "length (take p d @ replicate (p - length d) (0::byte)) = p" by simp
  have D: "D = (take p d @ replicate (p - length d) 0) @ buf @ drop (p + length buf) d"
    by (simp add: D_def)
  show "take p D = take p d @ replicate (p - length d) 0" using l unfolding D by (metis append_eq_conv_conj)
  show "take (length buf) (drop p D) = buf" using l unfolding D by simp
  show "length D = max (length d) (p + length buf)" unfolding D_def by simp
qed

lemma os_writeAt_ok:
  assumes "0 \<le> sint off"
  shows "\<exists>d'. os_writeAt d buf off = Inr d' \<and> take (nat (sint off)) d' = take (nat (sint off)) d @ replicate (nat (sint off) - length d) 0
      \<and> take (length buf) (drop (nat (sint off)) d') = buf
      \<and> length d' = max (length d) (nat (sint off) + length buf)"
proof -
  let ?p = "nat (sint off)"
  let ?D = "take ?p d @ replicate (?p - length d) 0 @ buf @ drop (?p + length buf) d"
  have "os_writeAt d buf off = Inr ?D" using assms by (simp add: os_writeAt_def Let_def)
  with write_at_bytes [where p = ?p and d = d and buf = buf] show ?thesis by blast
qed

subsection \<open>extend and append keep the size\<close>

theorem tf_extend_spec:
  "tf_inv f \<Longrightarrow> length (tf_data f) + unat sz < 2^63 \<Longrightarrow>
   tf_extend f sz = (Inr (tf_size f), f\<lparr>tf_data := tf_data f @ replicate (unat sz) 0, tf_size := tf_size f + ucast sz\<rparr>)
   \<and> tf_inv (snd (tf_extend f sz))"
proof -
  assume i: "tf_inv f" and b: "length (tf_data f) + unat sz < 2^63"
  have e: "(ucast sz :: i64) = word_of_nat (unat sz)" by (rule ucast_u32_i64)
  have "sint (tf_size f + word_of_nat (unat sz)) = int (length (tf_data f)) + int (unat sz)"
    using i b by (intro sint_i64_add_nat) (simp_all add: tf_inv_def)
  then have s: "sint (tf_size f + ucast sz) = int (length (tf_data f)) + int (unat sz)"
    by (simp only: e)
  moreover have "0 \<le> int (length (tf_data f)) + int (unat sz)" by simp
  ultimately have "os_truncate (tf_data f) (tf_size f + ucast sz) = Inr (tf_data f @ replicate (unat sz) 0)"
    unfolding os_truncate_def by (simp only: not_less [symmetric]) (simp add: nat_add_distrib)
  then show ?thesis using s by (simp add: tf_extend_def tf_inv_def Let_def)
qed

theorem tf_append_roundtrip:
  "tf_inv f \<Longrightarrow> length (tf_data f) + length data < 2^63 \<Longrightarrow>
   fst (tf_append f data) = Inr (tf_size f) \<and> tf_inv (snd (tf_append f data))
   \<and> os_readAt (tf_data (snd (tf_append f data))) (length data) (tf_size f) = Inr data
   \<and> take (length (tf_data f)) (tf_data (snd (tf_append f data))) = tf_data f"
proof -
  assume i: "tf_inv f" and b: "length (tf_data f) + length data < 2^63"
  have o: "sint (tf_size f) = int (length (tf_data f))" using i by (simp add: tf_inv_def)
  have w: "os_writeAt (tf_data f) data (tf_size f) = Inr (tf_data f @ data)"
    using o by (simp add: os_writeAt_def)
  have s: "sint (tf_size f + word_of_nat (length data)) = int (length (tf_data f)) + int (length data)"
    using sint_i64_add_nat [OF o b] .
  show ?thesis using w s o by (simp add: tf_append_def tf_inv_def os_readAt_def Let_def)
qed

subsection \<open>Storing and loading an encoded value\<close>

lemma tf_write_ok:
  "0 \<le> sint off \<Longrightarrow>
   \<exists>d'. tf_writeMarshalableAt marshal f m off = (None, f\<lparr>tf_data := d'\<rparr>)
     \<and> take (length (marshal m)) (drop (nat (sint off)) d') = marshal m
     \<and> length d' = max (length (tf_data f)) (nat (sint off) + length (marshal m))"
  using os_writeAt_ok [of off "tf_data f" "marshal m"] by (auto simp: tf_writeMarshalableAt_def)

theorem tf_marshal_roundtrip:
  "codec_ok marshal unmarshal \<Longrightarrow> 0 \<le> sint off \<Longrightarrow> length (marshal m) < 2^32 \<Longrightarrow>
   fst (tf_writeMarshalableAt marshal f m off) = None
   \<and> tf_readUnmarshalableAt unmarshal (snd (tf_writeMarshalableAt marshal f m off))
        (word_of_nat (length (marshal m))) off = Inr m"
proof -
  assume c: "codec_ok marshal unmarshal" and o: "0 \<le> sint off" and l: "length (marshal m) < 2^32"
  obtain d' where w: "tf_writeMarshalableAt marshal f m off = (None, f\<lparr>tf_data := d'\<rparr>)"
      and t: "take (length (marshal m)) (drop (nat (sint off)) d') = marshal m"
      and n: "length d' = max (length (tf_data f)) (nat (sint off) + length (marshal m))"
    using tf_write_ok [of off marshal f m] o by auto
  have "unmarshal (marshal m) = Some m" using c unfolding codec_ok_def by (metis append_Nil2)
  then show ?thesis using w t n o unat_u32_of_nat [OF l]
    by (simp add: tf_readUnmarshalableAt_def os_readAt_def)
qed

lemma tf_write_inside_inv:
  "tf_inv f \<Longrightarrow> 0 \<le> sint off \<Longrightarrow> nat (sint off) + length (marshal m) \<le> length (tf_data f) \<Longrightarrow>
   tf_inv (snd (tf_writeMarshalableAt marshal f m off))"
  using tf_write_ok [of off marshal f m] by (auto simp: tf_inv_def)

text \<open>C29: On every file whose kept size is its length, writeMarshalableAt at an offset whose value runs past the end succeeds, grows the file but leaves the kept size unchanged, so the size invariant breaks and the next append returns the old size, an offset below the end of the value just written.\<close>

theorem tf_write_past_end_breaks_inv:
  assumes "tf_inv f" "0 \<le> sint off" "length (tf_data f) < nat (sint off) + length (marshal m)"
  shows "fst (tf_writeMarshalableAt marshal f m off) = None
         \<and> tf_size (snd (tf_writeMarshalableAt marshal f m off)) = tf_size f
         \<and> \<not> tf_inv (snd (tf_writeMarshalableAt marshal f m off))
         \<and> fst (tf_append (snd (tf_writeMarshalableAt marshal f m off)) data) = Inr (tf_size f)
         \<and> sint (tf_size f) < sint off + int (length (marshal m))"
proof -
  obtain d' where w: "tf_writeMarshalableAt marshal f m off = (None, f\<lparr>tf_data := d'\<rparr>)"
      and n: "length d' = max (length (tf_data f)) (nat (sint off) + length (marshal m))"
    using tf_write_ok [of off marshal f m] assms(2) by auto
  have s: "sint (tf_size f) = int (length (tf_data f))" using assms(1) by (simp add: tf_inv_def)
  have "length (tf_data f) < length d'" using n assms(3) by simp
  then have "\<not> tf_inv (f\<lparr>tf_data := d'\<rparr>)" using s by (simp add: tf_inv_def)
  moreover have "fst (tf_append (f\<lparr>tf_data := d'\<rparr>) data) = Inr (tf_size f)"
    using s by (simp add: tf_append_def os_writeAt_def Let_def)
  ultimately show ?thesis using w s assms(2,3) by simp
qed

subsection \<open>The lemmas on a new file\<close>

theorem tf_marshal_roundtrip_witness:
  "codec_ok logInfo_marshal logInfo_unmarshal \<and> 0 \<le> sint (0::i64)
   \<and> length (logInfo_marshal demo_logInfo) < 2^32
   \<and> fst (tf_writeMarshalableAt logInfo_marshal tf_empty demo_logInfo 0) = None
   \<and> tf_readUnmarshalableAt logInfo_unmarshal (snd (tf_writeMarshalableAt logInfo_marshal tf_empty demo_logInfo 0))
        28 0 = Inr demo_logInfo"
proof -
  have c: "codec_ok logInfo_marshal logInfo_unmarshal"
    by (simp add: codec_ok_def logInfo_unmarshal_def logInfo_marshal_def logHeaderSize_def)
  have l: "length (logInfo_marshal demo_logInfo) < 2^32" by (simp add: logHeaderSize_def)
  have "(word_of_nat (length (logInfo_marshal demo_logInfo)) :: u32) = 28" by (simp add: logHeaderSize_def)
  then show ?thesis using tf_marshal_roundtrip [OF c _ l, of 0 tf_empty] c l by simp
qed

theorem tf_extend_spec_witness:
  "tf_inv tf_empty \<and> length (tf_data tf_empty) + unat (3::u32) < 2^63
   \<and> tf_extend tf_empty 3 = (Inr 0, \<lparr>tf_data = [0, 0, 0], tf_size = 3, tf_memoryMap = False\<rparr>)"
proof -
  have h: "tf_inv tf_empty" "length (tf_data tf_empty) + unat (3::u32) < 2^63"
    by (simp_all add: tf_empty_def tf_inv_def)
  have u: "unat (3::u32) = 3" "(ucast (3::u32) :: i64) = 3" by simp_all
  show ?thesis using tf_extend_spec [OF h, unfolded u] h by (simp add: tf_empty_def numeral_3_eq_3)
qed

theorem tf_append_roundtrip_witness:
  "tf_inv tf_empty \<and> length (tf_data tf_empty) + length [1, 2::byte] < 2^63
   \<and> fst (tf_append tf_empty [1, 2]) = Inr 0
   \<and> os_readAt (tf_data (snd (tf_append tf_empty [1, 2]))) 2 0 = Inr [1, 2]"
proof -
  have h: "tf_inv tf_empty" "length (tf_data tf_empty) + length [1, 2::byte] < 2^63"
    by (simp_all add: tf_empty_def tf_inv_def)
  show ?thesis using tf_append_roundtrip [OF h] h by (simp add: tf_empty_def numeral_2_eq_2)
qed

theorem tf_write_past_end_breaks_inv_witness:
  "tf_inv tf_empty \<and> 0 \<le> sint (0::i64)
   \<and> length (tf_data tf_empty) < nat (sint (0::i64)) + length (logInfo_marshal demo_logInfo)
   \<and> fst (tf_writeMarshalableAt logInfo_marshal tf_empty demo_logInfo 0) = None
   \<and> tf_size (snd (tf_writeMarshalableAt logInfo_marshal tf_empty demo_logInfo 0)) = tf_size tf_empty
   \<and> \<not> tf_inv (snd (tf_writeMarshalableAt logInfo_marshal tf_empty demo_logInfo 0))
   \<and> fst (tf_append (snd (tf_writeMarshalableAt logInfo_marshal tf_empty demo_logInfo 0)) [1]) = Inr (tf_size tf_empty)
   \<and> sint (tf_size tf_empty) < sint (0::i64) + int (length (logInfo_marshal demo_logInfo))"
proof -
  have h: "tf_inv tf_empty" "0 \<le> sint (0::i64)"
    "length (tf_data tf_empty) < nat (sint (0::i64)) + length (logInfo_marshal demo_logInfo)"
    by (simp_all add: tf_empty_def tf_inv_def logInfo_marshal_def)
  show ?thesis by (intro conjI h tf_write_past_end_breaks_inv [where data = "[1]" and marshal = logInfo_marshal and m = demo_logInfo and f = tf_empty and off = 0, OF h])
qed

subsection \<open>Opening a file\<close>

lemma cache_id_unat: "unat (cache_id a b) = unat a * 2^32 + unat b"
proof -
  have la: "unat a < 2^32" "unat b < 2^32" using unsigned_less [of a] unsigned_less [of b] by simp_all
  have "unat a < (2::nat)^64" "unat b < (2::nat)^64" using la by simp_all
  then have ua: "unat (ucast a :: u64) = unat a" "unat (ucast b :: u64) = unat b"
    using la by (simp_all add: unsigned_ucast_eq take_bit_nat_eq_self)
  have p: "unat (push_bit 32 (ucast a :: u64)) = unat a * 2^32"
  proof -
    have "unat a * 2^32 < (2::nat)^32 * 2^32" using la(1) by simp
    then have "unat a * 2^32 < (2::nat)^64" by simp
    then show ?thesis
      by (subst unsigned_push_bit_eq) (simp add: ua(1) push_bit_eq_mult take_bit_nat_eq_self)
  qed
  have "unat a * 2^32 + unat b < (2::nat)^64"
  proof -
    have "unat a * 2^32 + unat b < (unat a + 1) * 2^32" using la(2) by simp
    also have "\<dots> \<le> 2^32 * 2^32" using la(1) by (intro mult_right_mono) simp_all
    finally show ?thesis by simp
  qed
  then show ?thesis using p ua(2) unfolding cache_id_def by (simp add: unat_add_lem [THEN iffD1])
qed

text \<open>The two random halves of a cache ID come back out of it: the sum never carries.\<close>

theorem cache_id_halves: "drop_bit 32 (cache_id a b) = ucast a \<and> take_bit 32 (cache_id a b) = ucast b"
proof -
  have lb: "unat b < 2^32" using unsigned_less [of b] by simp
  have la: "unat a < 2^32" using unsigned_less [of a] by simp
  have lb': "unat b div 4294967296 = 0" "unat b mod 4294967296 = unat b" using lb by simp_all
  have u: "unat (ucast a :: u64) = unat a" "unat (ucast b :: u64) = unat b"
    using la lb by (simp_all add: unsigned_ucast_eq take_bit_nat_eq_self)
  have "unat (drop_bit 32 (cache_id a b)) = unat (ucast a :: u64)"
    by (subst unat_drop_bit_eq) (simp add: cache_id_unat drop_bit_eq_div u lb')
  moreover have "unat (take_bit 32 (cache_id a b)) = unat (ucast b :: u64)"
    by (subst unsigned_take_bit_eq) (simp add: cache_id_unat take_bit_eq_mod u lb')
  ultimately show ?thesis by (simp add: word_unat_eq_iff)
qed

text \<open>A file that opens with no error has the size of its bytes, so it satisfies the invariant \<open>extend\<close> and \<open>append\<close> keep.\<close>

theorem tf_openFile_ok:
  assumes "length data < 2^63"
  shows "tf_openFile (Inr data) None None r1 r2
           = ((tf_empty\<lparr>tf_data := data, tf_size := word_of_nat (length data)\<rparr>, cache_id r1 r2), None)
         \<and> tf_inv (fst (fst (tf_openFile (Inr data) None None r1 r2)))"
  using sint_of_nat_i64 [OF assms] by (simp add: tf_openFile_def tf_inv_def tf_empty_def)

lemma tf_openFile_error:
  "snd (tf_openFile opened statErr cacheErr r1 r2) \<noteq> None \<Longrightarrow> snd (fst (tf_openFile opened statErr cacheErr r1 r2)) = 0"
  by (simp add: tf_openFile_def Let_def split: sum.splits option.splits)

lemma tf_openFile_ok_witness:
  "length [1, 2, 3 :: byte] < 2^63
   \<and> tf_openFile (Inr [1, 2, 3]) None None 1 2
       = ((tf_empty\<lparr>tf_data := [1, 2, 3], tf_size := word_of_nat (length [1, 2, 3 :: byte])\<rparr>, cache_id 1 2), None)
   \<and> tf_inv (fst (fst (tf_openFile (Inr [1, 2, 3]) None None 1 2)))"
proof -
  have h: "length [1, 2, 3 :: byte] < 2^63" by simp
  show ?thesis by (rule conjI [OF h tf_openFile_ok [of "[1, 2, 3]" 1 2, OF h]])
qed

end
