(* ===== verification/DbIndex.thy ===== *)
theory DbIndex
  imports DbCore TraceFile
begin

text \<open>
  The database's use of its index file (\<open>db_internal.go\<close>): the header with
  the \<open>dbInfo\<close> counters is written at offset 0 by \<open>writeHeader\<close> and read
  back by \<open>readHeader\<close>, and \<open>newBlock\<close>/\<open>extendBlocks\<close> grow the file by
  whole blocks with the file helper's \<open>extend\<close> (\<open>TraceFile\<close>) and count
  them with \<open>addBlocks\<close> (\<open>DbCore\<close>).  The state \<open>dbx\<close> pairs the database
  counters with the index file.
  The \<open>header\<close> struct, its codec, \<open>blockSize\<close>, the lease (free list) and the
  time window are not in the sources.  The header codec is a parameter with the
  contract \<open>codec_ok\<close> of \<open>TraceFile\<close>, the block size is a parameter, the
  lease's write and read are given as their outcomes, and the window index is
  kept in \<open>dbInfo\<close>, where \<open>writeHeader\<close> reads it.
\<close>

record db_header =
  hd_signature :: "byte list"
  hd_version :: u32
  hd_info :: dbInfo

record dbx =
  dx_db :: udb
  dx_index :: tfile

text \<open>
  \<open>writeHeader\<close>: the header holds the signature, the version and a fresh
  \<open>dbInfo\<close> with the counters; \<open>logSequence\<close> is not among them and stays 0.
\<close>

definition header_of :: "byte list \<Rightarrow> u32 \<Rightarrow> udb \<Rightarrow> db_header" where
  "header_of sig ver db =
     \<lparr>hd_signature = sig, hd_version = ver,
      hd_info = \<lparr>di_encryption = di_encryption (u_info db), di_sequence = seq db, di_logSequence = 0,
                 di_count = di_count (u_info db), di_blockIdx = blocks db,
                 di_windowIdx = di_windowIdx (u_info db), di_cacheID = di_cacheID (u_info db)\<rparr>\<rparr>"

definition db_writeHeader :: "(db_header \<Rightarrow> byte list) \<Rightarrow> byte list \<Rightarrow> u32 \<Rightarrow> bool \<Rightarrow> go_error option \<Rightarrow> dbx \<Rightarrow> go_error option \<times> dbx" where
  "db_writeHeader marshal sig ver writeFreeList lease_err x =
     (if writeFreeList \<and> lease_err \<noteq> None then (lease_err, x)
      else case tf_writeMarshalableAt marshal (dx_index x) (header_of sig ver (dx_db x)) 0 of
             (err, idx) \<Rightarrow> (err, x\<lparr>dx_index := idx\<rparr>))"

text \<open>
  \<open>readHeader\<close>: read \<open>headerSize\<close> bytes at 0 and take their \<open>dbInfo\<close>.
  The signature check is commented out in the source.  The lease's read, after
  that, is given as its outcome: \<open>io.EOF\<close> counts as success.
\<close>

definition db_readHeader :: "(byte list \<Rightarrow> db_header option) \<Rightarrow> u32 \<Rightarrow> go_error option \<Rightarrow> dbx \<Rightarrow> go_error option \<times> dbx" where
  "db_readHeader unmarshal hsize lease_err x =
     (case tf_readUnmarshalableAt unmarshal (dx_index x) hsize 0 of
        Inl e \<Rightarrow> (Some e, x)
      | Inr h \<Rightarrow> (lease_err, x\<lparr>dx_db := (dx_db x)\<lparr>u_info := hd_info h\<rparr>\<rparr>))"

text \<open>\<open>newBlock\<close> counts the block even when \<open>extend\<close> fails.\<close>

definition db_newBlock :: "u32 \<Rightarrow> dbx \<Rightarrow> (go_error + i64) \<times> dbx" where
  "db_newBlock blockSize x =
     (case tf_extend (dx_index x) blockSize of
        (r, idx) \<Rightarrow> (case r of Inl e \<Rightarrow> Inl e | Inr off \<Rightarrow> Inr off,
                     \<lparr>dx_db = snd (addBlocks 1 (dx_db x)), dx_index = idx\<rparr>))"

definition db_extendBlocks :: "u32 \<Rightarrow> 32 word \<Rightarrow> dbx \<Rightarrow> go_error option \<times> dbx" where
  "db_extendBlocks blockSize nBlocks x =
     (case tf_extend (dx_index x) (ucast nBlocks * blockSize) of
        (Inl e, _) \<Rightarrow> (Some e, x)
      | (Inr _, idx) \<Rightarrow> (None, \<lparr>dx_db = snd (addBlocks nBlocks (dx_db x)), dx_index = idx\<rparr>))"

text \<open>
  A header codec for the examples, laid out as the header's fields
  (signature, version, encryption, sequence, count, block and window index,
  cache ID; \<open>logSequence\<close> has no place in it), and two index files: a new
  one, and one whose kept size is the largest \<open>int64\<close>.
\<close>

definition hdr_marshal :: "db_header \<Rightarrow> byte list" where
  "hdr_marshal h =
     hd_signature h @ le_enc 4 (hd_version h) @ di_encryption (hd_info h)
     # le_enc 8 (di_sequence (hd_info h)) @ le_enc 8 (di_count (hd_info h))
     @ le_enc 4 (di_blockIdx (hd_info h)) @ le_enc 4 (di_windowIdx (hd_info h))
     @ le_enc 8 (di_cacheID (hd_info h))"

definition hdr_unmarshal :: "byte list \<Rightarrow> db_header option" where
  "hdr_unmarshal d =
     (if length d < 44 then None
      else Some \<lparr>hd_signature = take 7 d, hd_version = le_field d 7 11,
                 hd_info = \<lparr>di_encryption = d ! 11, di_sequence = le_field d 12 20,
                            di_logSequence = 0, di_count = le_field d 20 28,
                            di_blockIdx = le_field d 28 32, di_windowIdx = le_field d 32 36,
                            di_cacheID = le_field d 36 44\<rparr>\<rparr>)"

definition demo_dbx :: dbx where
  "demo_dbx = \<lparr>dx_db = demo_udb, dx_index = tf_empty\<rparr>"

definition huge_dbx :: dbx where
  "huge_dbx = \<lparr>dx_db = demo_udb, dx_index = \<lparr>tf_data = [], tf_size = 0x7FFFFFFFFFFFFFFF, tf_memoryMap = False\<rparr>\<rparr>"

subsection \<open>The header round trip\<close>

text \<open>C32: For a header codec that decodes what it encodes, writeHeader succeeds and a later readHeader of the header's size restores every dbInfo counter the header holds (encryption, sequence, count, block and window index, cache ID); logSequence is not written and reads back as 0.\<close>

lemma db_header_roundtrip:
  assumes c: "unmarshal (marshal (header_of sig ver (dx_db x))) = Some (header_of sig ver (dx_db x))"
    and h: "unat hsize = length (marshal (header_of sig ver (dx_db x)))"
  shows "fst (db_writeHeader marshal sig ver False le x) = None
   \<and> u_info (dx_db (snd (db_readHeader unmarshal hsize None (snd (db_writeHeader marshal sig ver False le x)))))
       = (u_info (dx_db x))\<lparr>di_logSequence := 0\<rparr>"
proof -
  let ?h = "header_of sig ver (dx_db x)"
  obtain d' where w: "tf_writeMarshalableAt marshal (dx_index x) ?h 0 = (None, (dx_index x)\<lparr>tf_data := d'\<rparr>)"
      and t: "take (length (marshal ?h)) (drop 0 d') = marshal ?h"
      and n: "length d' = max (length (tf_data (dx_index x))) (0 + length (marshal ?h))"
    using tf_write_ok [of 0 marshal "dx_index x" ?h] by auto
  have r: "tf_readUnmarshalableAt unmarshal ((dx_index x)\<lparr>tf_data := d'\<rparr>) hsize 0 = Inr ?h"
    using t n c h by (simp add: tf_readUnmarshalableAt_def os_readAt_def)
  show ?thesis using w r
    by (cases "u_info (dx_db x)") (simp add: db_writeHeader_def db_readHeader_def header_of_def seq_def blocks_def)
qed

lemma le_field_Cons: "0 < lo \<Longrightarrow> le_field (x # xs) lo hi = le_field xs (lo - 1) (hi - 1)"
  by (cases lo) (simp_all add: le_field_def)

lemma hdr_codec:
  "length (hd_signature h) = 7 \<Longrightarrow> di_logSequence (hd_info h) = 0 \<Longrightarrow>
   hdr_unmarshal (hdr_marshal h @ rest) = Some h"
  by (cases h, cases "hd_info h") (simp add: hdr_unmarshal_def hdr_marshal_def le_field_Cons nth_append)

theorem db_header_roundtrip_witness:
  "hdr_unmarshal (hdr_marshal (header_of (replicate 7 85) 1 (dx_db demo_dbx)))
     = Some (header_of (replicate 7 85) 1 (dx_db demo_dbx))
   \<and> unat (44::u32) = length (hdr_marshal (header_of (replicate 7 85) 1 (dx_db demo_dbx)))
   \<and> fst (db_writeHeader hdr_marshal (replicate 7 85) 1 False None demo_dbx) = None
   \<and> u_info (dx_db (snd (db_readHeader hdr_unmarshal 44 None
        (snd (db_writeHeader hdr_marshal (replicate 7 85) 1 False None demo_dbx)))))
       = (u_info demo_udb)\<lparr>di_logSequence := 0\<rparr>"
proof -
  have c: "hdr_unmarshal (hdr_marshal (header_of (replicate 7 85) 1 (dx_db demo_dbx)))
     = Some (header_of (replicate 7 85) 1 (dx_db demo_dbx))"
  proof -
    have "length (hd_signature (header_of (replicate 7 85) 1 (dx_db demo_dbx))) = 7"
      "di_logSequence (hd_info (header_of (replicate 7 85) 1 (dx_db demo_dbx))) = 0"
      by (simp_all add: header_of_def)
    from hdr_codec [OF this, of "[]"] show ?thesis by simp
  qed
  have h: "unat (44::u32) = length (hdr_marshal (header_of (replicate 7 85) 1 (dx_db demo_dbx)))"
    by (simp add: hdr_marshal_def header_of_def)
  show ?thesis
    using db_header_roundtrip [where unmarshal = hdr_unmarshal and marshal = hdr_marshal and sig = "replicate 7 85"
        and ver = 1 and x = demo_dbx and hsize = 44 and le = None, OF c h] c h
    by (simp add: demo_dbx_def)
qed

subsection \<open>Growing the index by blocks\<close>

text \<open>C33: When extending the index file fails, newBlock returns the error and leaves the file alone but still counts one more block, so blocks() no longer matches the file.\<close>

lemma db_newBlock_failed:
  "fst (tf_extend (dx_index x) bs) = Inl e \<Longrightarrow>
   fst (db_newBlock bs x) = Inl e \<and> dx_index (snd (db_newBlock bs x)) = dx_index x
   \<and> blocks (dx_db (snd (db_newBlock bs x))) = blocks (dx_db x) + 1"
  by (auto simp: db_newBlock_def tf_extend_def Let_def addBlocks_def blocks_def split: sum.splits prod.splits)

theorem db_newBlock_failed_witness:
  "fst (tf_extend (dx_index huge_dbx) 4096) = Inl IOError
   \<and> blocks (dx_db (snd (db_newBlock 4096 huge_dbx))) = blocks (dx_db huge_dbx) + 1"
proof -
  have h: "fst (tf_extend (dx_index huge_dbx) 4096) = Inl IOError"
    by (simp add: huge_dbx_def tf_extend_def os_truncate_def)
  show ?thesis using db_newBlock_failed [OF h] h by simp
qed

lemma db_extendBlocks_wraps:
  "tf_inv (dx_index x) \<Longrightarrow> length (tf_data (dx_index x)) + 2^32 < 2^63 \<Longrightarrow>
   fst (db_extendBlocks bs n x) = None
   \<and> length (tf_data (dx_index (snd (db_extendBlocks bs n x))))
       = length (tf_data (dx_index x)) + unat n * unat bs mod 2^32
   \<and> blocks (dx_db (snd (db_extendBlocks bs n x))) = blocks (dx_db x) + n"
proof -
  assume i: "tf_inv (dx_index x)" and b: "length (tf_data (dx_index x)) + 2^32 < 2^63"
  have u: "unat (ucast n * bs :: u32) = unat n * unat bs mod 2^32" by (simp add: unat_mult_lem unat_word_ariths)
  have "unat n * unat bs mod 2^32 < (2::nat)^32" by simp
  then have "length (tf_data (dx_index x)) + unat (ucast n * bs :: u32) < 2^63"
    using b u by linarith
  note e = tf_extend_spec [OF i this]
  show ?thesis using e u by (simp add: db_extendBlocks_def addBlocks_def blocks_def Let_def)
qed

theorem db_extendBlocks_wraps_witness:
  "tf_inv (dx_index demo_dbx) \<and> length (tf_data (dx_index demo_dbx)) + 2^32 < (2::nat)^63
   \<and> fst (db_extendBlocks 65536 65536 demo_dbx) = None
   \<and> length (tf_data (dx_index (snd (db_extendBlocks 65536 65536 demo_dbx)))) = 0
   \<and> blocks (dx_db (snd (db_extendBlocks 65536 65536 demo_dbx))) = blocks (dx_db demo_dbx) + 65536"
proof -
  have h: "tf_inv (dx_index demo_dbx)" "length (tf_data (dx_index demo_dbx)) + 2^32 < (2::nat)^63"
    by (simp_all add: demo_dbx_def tf_empty_def tf_inv_def)
  show ?thesis using db_extendBlocks_wraps [OF h, of 65536 65536] h by (simp add: demo_dbx_def tf_empty_def)
qed

end
