(* ===== verification/Options.thy ===== *)
theory Options
  imports Prelude
begin

text \<open>
  The options of a database (\<open>options.go\<close>): the \<open>Options\<close> struct and
  \<open>copyWithDefaults\<close>, which copies the caller's options (or zero options for
  a nil pointer) and replaces zero fields by defaults.  Durations are Go
  \<open>time.Duration\<close> values in nanoseconds (\<open>int64\<close>); \<open>int\<close> is 64 bits; a
  nil byte slice and a nil file system are \<open>None\<close>.  The lemmas show that the
  copy is idempotent, and that two documented behaviours are unreachable:
  the sync interval can never be 0 (``0 disables'') and key expiry is always on.
\<close>

datatype fileSystem = FileIO | CustomFS nat

record options =
  o_backgroundSyncInterval :: i64
  o_backgroundKeyExpiry :: bool
  o_encryption :: bool
  o_encryptionKey :: "byte list option"
  o_blockCacheSize :: i64
  o_tinyBatchSize :: i64
  o_tinyBatchWriteInterval :: i64
  o_memdbSize :: i64
  o_logSize :: i64
  o_fileSystem :: "fileSystem option"

definition zero_options :: options where
  "zero_options = \<lparr>o_backgroundSyncInterval = 0, o_backgroundKeyExpiry = False, o_encryption = False,
     o_encryptionKey = None, o_blockCacheSize = 0, o_tinyBatchSize = 0, o_tinyBatchWriteInterval = 0,
     o_memdbSize = 0, o_logSize = 0, o_fileSystem = None\<rparr>"

text \<open>The default key: the bytes of \<open>"4BWm1vZletvrCDGWsF6mex8oBSd59m6I"\<close>.\<close>

definition default_key :: "byte list" where
  "default_key = map (\<lambda>c. word_of_nat (of_char c)) ''4BWm1vZletvrCDGWsF6mex8oBSd59m6I''"

text \<open>
  Each default only reads and writes its own field, so the sequence of
  \<open>if\<close> statements is one record update.
\<close>

definition copyWithDefaults :: "options option \<Rightarrow> options" where
  "copyWithDefaults src =
     (let opts = (case src of None \<Rightarrow> zero_options | Some s \<Rightarrow> s)
      in opts\<lparr>o_backgroundKeyExpiry := True,
           o_fileSystem := (if o_fileSystem opts = None then Some FileIO else o_fileSystem opts),
           o_backgroundSyncInterval :=
             (if o_backgroundSyncInterval opts = 0 then 1000000000 else o_backgroundSyncInterval opts),
           o_blockCacheSize := (if o_blockCacheSize opts = 0 then 2 ^ 30 else o_blockCacheSize opts),
           o_tinyBatchSize := (if o_tinyBatchSize opts = 0 then 100 else o_tinyBatchSize opts),
           o_tinyBatchWriteInterval :=
             (if o_tinyBatchWriteInterval opts = 0 then 15000000 else o_tinyBatchWriteInterval opts),
           o_memdbSize := (if o_memdbSize opts = 0 then 2 ^ 20 else o_memdbSize opts),
           o_logSize := (if o_logSize opts = 0 then 2 ^ 30 else o_logSize opts),
           o_encryptionKey := (if o_encryptionKey opts = None then Some default_key else o_encryptionKey opts)\<rparr>)"

theorem copyWithDefaults_idem: "copyWithDefaults (Some (copyWithDefaults src)) = copyWithDefaults src"
  by (simp add: copyWithDefaults_def Let_def split: option.splits)

theorem copyWithDefaults_overrides:
  "o_backgroundSyncInterval (copyWithDefaults src) \<noteq> 0 \<and> o_backgroundKeyExpiry (copyWithDefaults src)
   \<and> o_memdbSize (copyWithDefaults None) = 2 ^ 20"
  by (simp add: copyWithDefaults_def Let_def zero_options_def split: option.splits)

end
