(* ===== verification/WalRead.thy ===== *)
theory WalRead
  imports WalReader
begin

text \<open>
  The recovery scan of \<open>Reader.Read\<close> (\<open>wal/reader.go\<close>, lines 67--135).
  It runs after the released logs have been removed (\<open>read_release\<close>).  The
  scan keeps a window of the log file in a buffer: \<open>size\<close> bytes at
  \<open>fileOff\<close>.  It walks the recovered logs from index \<open>idx\<close> at the buffer
  offset \<open>offset\<close>.
  \<^item> A log that is not written, or has no entries, is stepped over, together
    with the free segment that follows it.
  \<^item> A log longer than the window makes the window that long.  It then starts a
    new pass from the same \<open>fileOff\<close>.
  \<^item> A log that does not fit in the rest of the window starts a new pass at
    the log.
  \<^item> Otherwise the log's body is handed to the callback \<open>f\<close>, and the log is
    marked released.
  The file, the free segments, the buffer limit and the callback are the
  environment \<open>rd_env\<close>.  The callback is pure: it sees the TimeID, the body
  and the entry count, and answers \<open>(stop, err)\<close>.  Writing the released
  status and the header back to the file is not modelled; the list of released
  TimeIDs records it.
  The scan is a \<open>function\<close> whose termination is proved with a measure: each
  pass moves past a log, or grows the window to the log it stopped at.
\<close>

record rd_env =
  re_file :: "byte list"
  re_segments :: segments
  re_bufferSize :: i64
  re_cb :: "i64 \<Rightarrow> byte list \<Rightarrow> u32 \<Rightarrow> bool \<times> go_error option"

type_synonym scan_acc = "(i64 \<times> byte list \<times> u32) list \<times> i64 list"

datatype scan_out = ScanDone | ScanAgain nat i64 i64 | ScanStop "go_error option"

text \<open>\<open>buffer.Slice(lo, hi)\<close> of the pooled buffer: an error out of range.\<close>

definition buf_slice :: "byte list \<Rightarrow> i64 \<Rightarrow> i64 \<Rightarrow> byte list option" where
  "buf_slice buf lo hi =
     (if 0 \<le> sint lo \<and> sint lo \<le> sint hi \<and> sint hi \<le> int (length buf)
      then Some (take (nat (sint hi - sint lo)) (drop (nat (sint lo)) buf)) else None)"

definition file_size :: "rd_env \<Rightarrow> i64" where
  "file_size env = word_of_nat (length (re_file env))"

text \<open>One pass of the inner \<open>for i := idx; i < l; i++\<close> loop.\<close>

fun scan_pass :: "rd_env \<Rightarrow> byte list \<Rightarrow> i64 \<Rightarrow> i64 \<Rightarrow> i64 \<Rightarrow> nat \<Rightarrow> logInfo list \<Rightarrow> scan_acc \<Rightarrow> scan_out \<times> scan_acc" where
  "scan_pass env buf S F off idx [] acc = (ScanDone, acc)"
| "scan_pass env buf S F off idx (ul # uls) acc =
     (let sz = (ucast (li_size ul) :: i64);
          next = off + sz + ucast (freeSize (re_segments env) (li_offset ul + sz))
      in if li_entryCount ul = 0 \<or> li_status ul \<noteq> logStatusWritten
         then scan_pass env buf S F next (Suc idx) uls acc
         else if S <s sz then (ScanAgain idx F sz, acc)
         else if S - off <s sz then (ScanAgain idx (li_offset ul) (file_size env - li_offset ul), acc)
         else (case buf_slice buf (off + word_of_nat logHeaderSize) (off + sz) of
                 None \<Rightarrow> (ScanStop (Some (GoErr ''buffer slice out of range'')), acc)
               | Some data \<Rightarrow>
                   let acc1 = (fst acc @ [(li_timeID ul, data, li_entryCount ul)], snd acc);
                       (stop, err) = re_cb env (li_timeID ul) data (li_entryCount ul)
                   in if stop \<or> err \<noteq> None then (ScanStop err, acc1)
                      else scan_pass env buf S F next (Suc idx) uls (fst acc1, snd acc1 @ [li_timeID ul])))"

text \<open>
  What makes the outer loop terminate: a pass that starts a new one has moved
  past a log, or it stopped at its first log because the window was too small,
  and the new window is exactly that log's size.
\<close>

lemma scan_pass_again:
  "scan_pass env buf S F off idx uls acc = (ScanAgain idx' F' S', acc') \<Longrightarrow>
   idx \<le> idx' \<and> idx' < idx + length uls \<and>
   (idx' = idx \<longrightarrow> off = 0 \<longrightarrow> S <s ucast (li_size (hd uls)) \<and> S' = ucast (li_size (hd uls)))"
proof (induction uls arbitrary: off idx acc)
  case Nil
  then show ?case by simp
next
  case (Cons ul uls)
  let ?sz = "ucast (li_size ul) :: i64"
  let ?next = "off + ?sz + ucast (freeSize (re_segments env) (li_offset ul + ?sz))"
  show ?case
  proof (cases "li_entryCount ul = 0 \<or> li_status ul \<noteq> logStatusWritten")
    case True
    then have "scan_pass env buf S F ?next (Suc idx) uls acc = (ScanAgain idx' F' S', acc')"
      using Cons.prems by (simp add: Let_def)
    then show ?thesis using Cons.IH by fastforce
  next
    case skip: False
    show ?thesis
    proof (cases "S <s ?sz")
      case True
      then show ?thesis using Cons.prems skip by (simp add: Let_def)
    next
      case small: False
      show ?thesis
      proof (cases "S - off <s ?sz")
        case True
        then show ?thesis using Cons.prems skip small by (auto simp: Let_def)
      next
        case False
        then obtain data where
          "scan_pass env buf S F ?next (Suc idx) uls
             (fst acc @ [(li_timeID ul, data, li_entryCount ul)], snd acc @ [li_timeID ul]) = (ScanAgain idx' F' S', acc')"
          using Cons.prems skip small
          by (auto simp: Let_def split: option.splits prod.splits if_splits)
        then show ?thesis using Cons.IH by fastforce
      qed
    qed
  qed
qed

definition scan_measure :: "logInfo list \<Rightarrow> nat \<Rightarrow> i64 \<Rightarrow> nat" where
  "scan_measure logs idx S =
     2 * (length logs - idx) + (if idx < length logs \<and> S <s ucast (li_size (logs ! idx)) then 1 else 0)"

lemma scan_measure_decreases:
  assumes "(ScanAgain idx' F' S', acc') = scan_pass env buf S F 0 idx (drop idx logs) acc"
  shows "scan_measure logs idx' S' < scan_measure logs idx S"
proof -
  note a = scan_pass_again [OF assms [symmetric]]
  have l: "idx' < length logs" using a by (cases "idx \<le> length logs") auto
  show ?thesis
  proof (cases "idx' = idx")
    case True
    then have "S <s ucast (li_size (logs ! idx)) \<and> S' = ucast (li_size (logs ! idx))"
      using a l by (simp add: hd_drop_conv_nth)
    then show ?thesis using True l by (simp add: scan_measure_def)
  next
    case False
    then have "idx < idx'" using a by simp
    then have "length logs - idx' < length logs - idx" using l by simp
    then show ?thesis by (simp add: scan_measure_def)
  qed
qed

text \<open>
  The outer \<open>for\<close> loop.  It reads \<open>size\<close> bytes of the file at
  \<open>fileOff\<close> into the buffer; a read outside the file is an I/O error.  Then it
  runs a pass.  At the end the header is written, which is not modelled.
\<close>

function read_scan :: "rd_env \<Rightarrow> logInfo list \<Rightarrow> nat \<Rightarrow> i64 \<Rightarrow> i64 \<Rightarrow> scan_acc \<Rightarrow> go_error option \<times> scan_acc" where
  "read_scan env logs idx F S acc =
     (if sint S < 0 \<or> sint F < 0 \<or> sint F + sint S > int (length (re_file env)) then (Some IOError, acc)
      else
        let buf = take (nat (sint S)) (drop (nat (sint F)) (re_file env))
        in case scan_pass env buf S F 0 idx (drop idx logs) acc of
             (ScanDone, acc') \<Rightarrow> (None, acc')
           | (ScanStop e, acc') \<Rightarrow> (e, acc')
           | (ScanAgain idx' F' S', acc') \<Rightarrow> read_scan env logs idx' F' S' acc')"
  by pat_completeness auto
termination
  by (relation "measure (\<lambda>(env, logs, idx, F, S, acc). scan_measure logs idx S)")
     (auto intro: scan_measure_decreases)

declare read_scan.simps [simp del]

text \<open>
  \<open>Reader.Read\<close>: drop the released logs, stop if none are left, and start with
  the window at the first log, capped at the buffer size.
\<close>

definition reader_read :: "rd_env \<Rightarrow> logInfo list \<Rightarrow> go_error option \<times> scan_acc" where
  "reader_read env logs0 =
     (let logs = read_release logs0
      in if logs = [] then (None, ([], []))
         else let F = li_offset (hd logs);
                  S0 = file_size env - F;
                  S = (if re_bufferSize env <s S0 then re_bufferSize env else S0)
              in read_scan env logs 0 F S ([], []))"

text \<open>
  A recovery scene for the lemmas below: the log file holds two written logs of
  one entry each, at 47 (40 bytes: the header and a 12-byte body of ones) and
  at 87 (100 bytes: the header and a 72-byte body of twos); the buffer limit is
  60 bytes and the callback never stops.
\<close>

definition rd_log :: "i64 \<Rightarrow> u32 \<Rightarrow> i64 \<Rightarrow> logInfo" where
  "rd_log t sz off = \<lparr>li_version = 1, li_status = logStatusWritten, li_timeID = t,
     li_entryCount = 1, li_size = sz, li_offset = off\<rparr>"

definition rd_demo :: rd_env where
  "rd_demo = \<lparr>re_file = replicate 75 0 @ replicate 12 1 @ replicate 28 0 @ replicate 72 2,
     re_segments = \<lparr>sg0 = \<lparr>seg_offset = 0, seg_size = 0\<rparr>, sg1 = \<lparr>seg_offset = 0, seg_size = 0\<rparr>,
                    sg2 = \<lparr>seg_offset = 0, seg_size = 0\<rparr>\<rparr>,
     re_bufferSize = 60, re_cb = (\<lambda>_ _ _. (False, None))\<rparr>"

definition rd_demo_logs :: "logInfo list" where
  "rd_demo_logs = [rd_log 1 40 47, rd_log 2 100 87]"

subsection \<open>Progress of the scan\<close>

theorem scan_pass_progress:
  "scan_pass env buf S F 0 idx (drop idx logs) acc = (ScanAgain idx' F' S', acc') \<Longrightarrow>
   idx' < length logs \<and> (idx < idx' \<or> idx' = idx \<and> S <s S' \<and> S' = ucast (li_size (logs ! idx)))"
proof -
  assume h: "scan_pass env buf S F 0 idx (drop idx logs) acc = (ScanAgain idx' F' S', acc')"
  note a = scan_pass_again [OF h]
  have l: "idx' < length logs" using a by (cases "idx \<le> length logs") auto
  moreover have "idx' = idx \<Longrightarrow> S <s S' \<and> S' = ucast (li_size (logs ! idx))"
    using a l by (simp add: hd_drop_conv_nth)
  ultimately show ?thesis using a by (cases "idx' = idx") auto
qed

theorem scan_pass_progress_witness:
  "scan_pass rd_demo (take 60 (drop 47 (re_file rd_demo))) 60 47 0 0 (drop 0 rd_demo_logs) ([], [])
     = (ScanAgain 1 47 100, ([(1, replicate 12 1, 1)], [1]))
   \<and> 1 < length rd_demo_logs"
proof -
  have h: "scan_pass rd_demo (take 60 (drop 47 (re_file rd_demo))) 60 47 0 0 (drop 0 rd_demo_logs) ([], [])
     = (ScanAgain 1 47 100, ([(1, replicate 12 1, 1)], [1]))"
    by code_simp
  show ?thesis using scan_pass_progress [OF h] h by simp
qed

subsection \<open>The stale window offset\<close>

text \<open>C26: When a written log is larger than the read window, Reader.Read grows the window to the log's size but keeps the old fileOff, so in the next pass the callback for that log receives bytes from the wrong place: the tail of the previous log, the log's own header and only part of its body, instead of the 72 bytes of its body.\<close>

theorem reader_read_stale_window:
  "reader_read rd_demo rd_demo_logs
     = (None, ([(1, replicate 12 1, 1), (2, replicate 12 1 @ replicate 28 0 @ replicate 32 2, 1)], [1, 2]))
   \<and> take 72 (drop (28 + unat (li_offset (rd_demo_logs ! 1))) (re_file rd_demo)) = replicate 72 2"
proof
  show "reader_read rd_demo rd_demo_logs
     = (None, ([(1, replicate 12 1, 1), (2, replicate 12 1 @ replicate 28 0 @ replicate 32 2, 1)], [1, 2]))"
    by code_simp
  show "take 72 (drop (28 + unat (li_offset (rd_demo_logs ! 1))) (re_file rd_demo)) = replicate 72 2"
    by (simp add: rd_demo_def rd_demo_logs_def rd_log_def)
qed

end
