(* ===== verification/Iterator.thy ===== *)
theory Iterator
  imports Prelude
begin

text \<open>
  The item iterator of the key-value store (\<open>iterator.go\<close>): \<open>ItemIterator\<close>
  walks the hash buckets of the index in order, collects the readable entries
  of one bucket (with its overflow buckets) into a queue, and hands them out one
  per \<open>Next\<close>.  The bucket chain that \<open>forEachBucket\<close> visits and
  \<open>readKeyValue\<close> come from the index and data files, which are not in the
  sources: they are the environment \<open>it_env\<close>, a chain of slot lists per
  bucket and a read function whose three outcomes are a key-value pair,
  \<open>ErrKeyExpired\<close> and another error.
  The lemmas show that draining the iterator with the right number of \<open>Next\<close>
  calls yields the readable entries of all buckets in order; and three
  behaviours the documentation does not mention: an expired entry hides the
  entries after it, the documented loop stops after one bucket, and a read
  error makes the iterator stall on its bucket, silently.
\<close>

datatype kv_read = KVOk "byte list" "byte list" | KVExpired | KVErr go_error

record slot =
  sl_kvOffset :: i64
  sl_expiresAt :: u32

record item =
  item_key :: "byte list"
  item_value :: "byte list"
  item_expiresAt :: u32
  item_err :: "go_error option"

record itemIterator =
  it_nextBucketIdx :: u32
  it_item :: item
  it_queue :: "item list"

record it_env =
  ie_nBuckets :: u32
  ie_chain :: "u32 \<Rightarrow> slot list list"
  ie_read :: "slot \<Rightarrow> kv_read"

definition empty_item :: item where
  "empty_item = \<lparr>item_key = [], item_value = [], item_expiresAt = 0, item_err = None\<rparr>"

definition fresh_iterator :: itemIterator where
  "fresh_iterator = \<lparr>it_nextBucketIdx = 0, it_item = empty_item, it_queue = []\<rparr>"

text \<open>
  The callback that \<open>Next\<close> passes to \<open>forEachBucket\<close>, on the entries of
  one bucket handle: it answers \<open>(stop, err)\<close> and appends to the queue.
\<close>

fun bucket_cb :: "(slot \<Rightarrow> kv_read) \<Rightarrow> slot list \<Rightarrow> item list \<Rightarrow> (bool \<times> go_error option) \<times> item list" where
  "bucket_cb rd [] q = ((False, None), q)"
| "bucket_cb rd (sl # sls) q =
     (if sl_kvOffset sl = 0 then ((True, None), q)
      else case rd sl of
        KVExpired \<Rightarrow> ((False, None), q)
      | KVErr e \<Rightarrow> ((True, Some e), q)
      | KVOk k v \<Rightarrow> bucket_cb rd sls (q @ [\<lparr>item_key = k, item_value = v,
                                           item_expiresAt = sl_expiresAt sl, item_err = None\<rparr>]))"

text \<open>\<open>DB.forEachBucket\<close>: the callback on each handle of the chain, until it stops.\<close>

fun for_each_chain :: "(slot \<Rightarrow> kv_read) \<Rightarrow> slot list list \<Rightarrow> item list \<Rightarrow> go_error option \<times> item list" where
  "for_each_chain rd [] q = (None, q)"
| "for_each_chain rd (b # bs) q =
     (case bucket_cb rd b q of
        ((stop, err), q') \<Rightarrow> if stop \<or> err \<noteq> None then (err, q') else for_each_chain rd bs q')"

text \<open>
  The refill loop \<open>for it.nextBucketIdx < it.db.nBuckets\<close>.  The flag is false
  when \<open>forEachBucket\<close> failed and \<open>Next\<close> returns at once.
\<close>

function fill_loop :: "it_env \<Rightarrow> u32 \<Rightarrow> item list \<Rightarrow> bool \<times> u32 \<times> item list" where
  "fill_loop env i q =
     (if i < ie_nBuckets env then
        (case for_each_chain (ie_read env) (ie_chain env i) q of
           (Some e, q') \<Rightarrow> (False, i, q')
         | (None, q') \<Rightarrow> if q' \<noteq> [] then (True, i + 1, q') else fill_loop env (i + 1) q')
      else (True, i, q))"
  by pat_completeness auto
termination
  by (relation "measure (\<lambda>(env, i, q). unat (ie_nBuckets env) - unat i)")
     (auto simp: unat_suc_less word_less_nat_alt)

declare fill_loop.simps [simp del]

definition it_next :: "it_env \<Rightarrow> itemIterator \<Rightarrow> itemIterator" where
  "it_next env it =
     (let (cont, i, q) = (if it_queue it = [] then fill_loop env (it_nextBucketIdx it) (it_queue it)
                          else (True, it_nextBucketIdx it, it_queue it));
          it1 = it\<lparr>it_nextBucketIdx := i, it_queue := q\<rparr>
      in if cont \<and> q \<noteq> [] then it1\<lparr>it_item := hd q, it_queue := tl q\<rparr> else it1)"

definition it_valid :: "itemIterator \<Rightarrow> bool" where
  "it_valid it = (it_queue it \<noteq> [])"

definition it_error :: "itemIterator \<Rightarrow> go_error option" where
  "it_error it = None"

definition it_key :: "itemIterator \<Rightarrow> byte list" where
  "it_key it = item_key (it_item it)"

definition it_value :: "itemIterator \<Rightarrow> byte list" where
  "it_value it = item_value (it_item it)"

text \<open>
  The loop of the usage documentation, \<open>for it.First(); it.Valid(); it.Next()\<close>,
  from the first \<open>Valid\<close> on: it visits \<open>Item\<close> while \<open>Valid\<close> holds.
\<close>

function doc_loop :: "it_env \<Rightarrow> itemIterator \<Rightarrow> item list" where
  "doc_loop env it = (if it_valid it then it_item it # doc_loop env (it_next env it) else [])"
  by pat_completeness auto
termination
  by (relation "measure (\<lambda>(env, it). length (it_queue it))")
     (auto simp: it_valid_def it_next_def)

declare doc_loop.simps [simp del]

text \<open>A client that calls \<open>Next\<close> \<open>n\<close> times and reads \<open>Item\<close> after each call.\<close>

fun it_take :: "nat \<Rightarrow> it_env \<Rightarrow> itemIterator \<Rightarrow> item list \<times> itemIterator" where
  "it_take 0 env it = ([], it)"
| "it_take (Suc n) env it =
     (let it' = it_next env it; (xs, it'') = it_take n env it' in (it_item it' # xs, it''))"

subsection \<open>What the iterator should enumerate\<close>

text \<open>
  The entries a bucket chain holds: every entry before the first empty slot
  whose key-value pair can be read (expired entries are left out).
  \<open>chain_items\<close> is what \<open>forEachBucket\<close> with the callback of \<open>Next\<close>
  collects, \<open>items_from\<close> the concatenation over the buckets from \<open>i\<close> on, and
  \<open>chains_ok\<close> says that no bucket from \<open>i\<close> on fails to be read.
\<close>

definition mk_item :: "slot \<Rightarrow> byte list \<Rightarrow> byte list \<Rightarrow> item" where
  "mk_item sl k v = \<lparr>item_key = k, item_value = v, item_expiresAt = sl_expiresAt sl, item_err = None\<rparr>"

definition entry_items :: "(slot \<Rightarrow> kv_read) \<Rightarrow> slot \<Rightarrow> item list" where
  "entry_items rd sl = (case rd sl of KVOk k v \<Rightarrow> [mk_item sl k v] | _ \<Rightarrow> [])"

definition slot_used :: "slot \<Rightarrow> bool" where
  "slot_used sl = (sl_kvOffset sl \<noteq> 0)"

definition chain_spec :: "(slot \<Rightarrow> kv_read) \<Rightarrow> slot list list \<Rightarrow> item list" where
  "chain_spec rd bs = concat (map (entry_items rd) (takeWhile slot_used (concat bs)))"

definition all_readable :: "(slot \<Rightarrow> kv_read) \<Rightarrow> slot list \<Rightarrow> bool" where
  "all_readable rd sls = list_all (\<lambda>sl. case rd sl of KVOk _ _ \<Rightarrow> True | _ \<Rightarrow> False) sls"

definition chain_items :: "(slot \<Rightarrow> kv_read) \<Rightarrow> slot list list \<Rightarrow> item list" where
  "chain_items rd bs = snd (for_each_chain rd bs [])"

definition items_from :: "it_env \<Rightarrow> u32 \<Rightarrow> item list" where
  "items_from env i = concat (map (\<lambda>j. chain_items (ie_read env) (ie_chain env (word_of_nat j)))
                                  [unat i..<unat (ie_nBuckets env)])"

definition chains_ok :: "it_env \<Rightarrow> u32 \<Rightarrow> bool" where
  "chains_ok env i = list_all (\<lambda>j. fst (for_each_chain (ie_read env) (ie_chain env (word_of_nat j)) []) = None)
                              [unat i..<unat (ie_nBuckets env)]"

text \<open>
  Demonstration data: slot \<open>n\<close> has data offset \<open>n\<close>; offset 2 has expired,
  offset 9 cannot be read, every other offset reads as key \<open>[n]\<close>, value \<open>[7]\<close>.
\<close>

definition demo_slot :: "i64 \<Rightarrow> slot" where
  "demo_slot n = \<lparr>sl_kvOffset = n, sl_expiresAt = 0\<rparr>"

definition demo_read :: "slot \<Rightarrow> kv_read" where
  "demo_read sl = (if sl_kvOffset sl = 2 then KVExpired else if sl_kvOffset sl = 9 then KVErr IOError
                   else KVOk [ucast (sl_kvOffset sl)] [7])"

definition demo_env :: "slot list list \<Rightarrow> slot list list \<Rightarrow> it_env" where
  "demo_env b0 b1 = \<lparr>ie_nBuckets = 2, ie_chain = (\<lambda>i. if i = 0 then b0 else b1), ie_read = demo_read\<rparr>"

subsection \<open>Draining the iterator\<close>

lemma bucket_cb_append':
  "bucket_cb rd b (q @ r) = (fst (bucket_cb rd b r), q @ snd (bucket_cb rd b r))"
proof (induction b arbitrary: r)
  case Nil
  then show ?case by simp
next
  case (Cons sl sls)
  show ?case
  proof (cases "sl_kvOffset sl = 0")
    case False
    then show ?thesis
    proof (cases "rd sl")
      case (KVOk k v)
      let ?x = "\<lparr>item_key = k, item_value = v, item_expiresAt = sl_expiresAt sl, item_err = None\<rparr>"
      have "bucket_cb rd sls (q @ (r @ [?x])) = (fst (bucket_cb rd sls (r @ [?x])), q @ snd (bucket_cb rd sls (r @ [?x])))"
        by (rule Cons.IH)
      then show ?thesis using False KVOk by simp
    qed simp_all
  qed simp
qed

lemma bucket_cb_append:
  "bucket_cb rd b q = (fst (bucket_cb rd b []), q @ snd (bucket_cb rd b []))"
  using bucket_cb_append' [of rd b q "[]"] by simp

lemma for_each_chain_append:
  "for_each_chain rd bs q = (fst (for_each_chain rd bs []), q @ snd (for_each_chain rd bs []))"
proof (induction bs arbitrary: q)
  case Nil
  then show ?case by simp
next
  case (Cons b bs)
  obtain st q1 where b: "bucket_cb rd b [] = (st, q1)" by fastforce
  have "bucket_cb rd b q = (st, q @ q1)" using bucket_cb_append [of rd b q] b by simp
  then show ?case using b Cons.IH [of "q @ q1"] Cons.IH [of q1]
    by (cases st) auto
qed

lemma items_from_step:
  "i < ie_nBuckets env \<Longrightarrow>
   items_from env i = chain_items (ie_read env) (ie_chain env i) @ items_from env (i + 1)"
  by (simp add: items_from_def unat_suc_less word_less_nat_alt upt_conv_Cons)

lemma chains_ok_step:
  "i < ie_nBuckets env \<Longrightarrow>
   chains_ok env i = (fst (for_each_chain (ie_read env) (ie_chain env i) []) = None \<and> chains_ok env (i + 1))"
  by (simp add: chains_ok_def unat_suc_less word_less_nat_alt upt_conv_Cons)

lemma items_from_end: "\<not> i < ie_nBuckets env \<Longrightarrow> items_from env i = []"
  by (simp add: items_from_def word_less_nat_alt)

lemma fill_loop_ok:
  "q = [] \<Longrightarrow> chains_ok env i \<Longrightarrow> fill_loop env i q = (c, i', q') \<Longrightarrow>
   c \<and> items_from env i = q' @ items_from env i' \<and> (q' = [] \<longrightarrow> items_from env i' = []) \<and> chains_ok env i'"
proof (induction env i q arbitrary: c i' q' rule: fill_loop.induct)
  case (1 env i q)
  show ?case
  proof (cases "i < ie_nBuckets env")
    case False
    then show ?thesis using "1.prems" by (simp add: fill_loop.simps items_from_end)
  next
    case True
    let ?r = "for_each_chain (ie_read env) (ie_chain env i) []"
    have ok: "fst ?r = None" "chains_ok env (i + 1)" using "1.prems"(2) chains_ok_step [OF True] by auto
    then obtain q1 where r: "?r = (None, q1)" by (cases ?r) auto
    have it: "items_from env i = q1 @ items_from env (i + 1)"
      using items_from_step [OF True] r by (simp add: chain_items_def)
    show ?thesis
    proof (cases "q1 = []")
      case False
      then show ?thesis using "1.prems" True r it ok by (auto simp: fill_loop.simps)
    next
      case q1: True
      then have fl: "fill_loop env (i + 1) q1 = (c, i', q')" using "1.prems" True r by (simp add: fill_loop.simps)
      have r': "(None, q1) = for_each_chain (ie_read env) (ie_chain env i) q" using r "1.prems"(1) by simp
      have "c \<and> items_from env (i + 1) = q' @ items_from env i' \<and> (q' = [] \<longrightarrow> items_from env i' = [])
            \<and> chains_ok env i'"
        using "1.IH" [OF True r' refl] q1 ok(2) fl by simp
      then show ?thesis using it q1 by simp
    qed
  qed
qed

lemma it_next_ok:
  assumes ok: "chains_ok env (it_nextBucketIdx it)"
    and R: "it_queue it @ items_from env (it_nextBucketIdx it) = x # xs"
  shows "it_item (it_next env it) = x
     \<and> it_queue (it_next env it) @ items_from env (it_nextBucketIdx (it_next env it)) = xs
     \<and> chains_ok env (it_nextBucketIdx (it_next env it))"
proof (cases "it_queue it = []")
  case False
  then obtain q where "it_queue it = x # q" "q @ items_from env (it_nextBucketIdx it) = xs"
    using R by (cases "it_queue it") auto
  then show ?thesis using ok by (simp add: it_next_def)
next
  case True
  obtain c i' q' where fl: "fill_loop env (it_nextBucketIdx it) [] = (c, i', q')" by (cases "fill_loop env (it_nextBucketIdx it) []") auto
  note f = fill_loop_ok [OF refl ok fl]
  then have "q' \<noteq> []" using R True by auto
  then obtain q where "q' = x # q" "q @ items_from env i' = xs" using R True f by (cases q') auto
  then show ?thesis using True fl f by (simp add: it_next_def)
qed

lemma it_take_Suc':
  "it_take (Suc n) env it
     = (it_item (it_next env it) # fst (it_take n env (it_next env it)), snd (it_take n env (it_next env it)))"
  by (simp add: Let_def split: prod.split)

lemma it_take_ok:
  "chains_ok env (it_nextBucketIdx it) \<Longrightarrow> it_queue it @ items_from env (it_nextBucketIdx it) = R \<Longrightarrow>
   fst (it_take (length R) env it) = R \<and> it_queue (snd (it_take (length R) env it)) = []"
proof (induction R arbitrary: it)
  case Nil
  then show ?case by simp
next
  case (Cons x xs)
  note n = it_next_ok [OF Cons.prems(1) Cons.prems(2)]
  have "fst (it_take (length xs) env (it_next env it)) = xs \<and> it_queue (snd (it_take (length xs) env (it_next env it))) = []"
    using Cons.IH n by blast
  then show ?case using n by (simp only: length_Cons it_take_Suc') simp
qed

text \<open>C20: When no bucket fails to be read, calling ItemIterator.Next as many times as there are entries and reading Item after each call yields exactly the entries that forEachBucket collects from bucket 0 to nBuckets-1, in bucket order, after which Valid is false.\<close>

theorem iterator_enumerates:
  "chains_ok env 0 \<Longrightarrow>
   fst (it_take (length (items_from env 0)) env fresh_iterator) = items_from env 0
   \<and> \<not> it_valid (snd (it_take (length (items_from env 0)) env fresh_iterator))"
  using it_take_ok [of env fresh_iterator "items_from env 0"]
  by (simp add: fresh_iterator_def it_valid_def)

subsection \<open>The entries of a bucket chain\<close>

lemma bucket_cb_readable:
  "all_readable rd (takeWhile slot_used b) \<Longrightarrow>
   bucket_cb rd b [] = ((\<not> list_all slot_used b, None), concat (map (entry_items rd) (takeWhile slot_used b)))"
proof (induction b)
  case Nil
  then show ?case by simp
next
  case (Cons sl sls)
  show ?case
  proof (cases "slot_used sl")
    case True
    then obtain k v where r: "rd sl = KVOk k v" using Cons.prems
      by (auto simp: all_readable_def split: kv_read.splits)
    have "all_readable rd (takeWhile slot_used sls)" using Cons.prems True by (simp add: all_readable_def)
    note ih = Cons.IH [OF this]
    have nz: "sl_kvOffset sl \<noteq> 0" using True by (simp add: slot_used_def)
    have "bucket_cb rd (sl # sls) [] = bucket_cb rd sls [mk_item sl k v]"
      using nz r by (simp add: mk_item_def)
    also have "\<dots> = (fst (bucket_cb rd sls []), mk_item sl k v # snd (bucket_cb rd sls []))"
      using bucket_cb_append [of rd sls "[mk_item sl k v]"] by simp
    finally show ?thesis using ih True r by (simp add: entry_items_def)
  next
    case False
    then show ?thesis by (simp add: slot_used_def)
  qed
qed

lemma list_all_takeWhile: "list_all P xs \<Longrightarrow> takeWhile P (xs @ ys) = xs @ takeWhile P ys"
  by (simp add: list_all_iff takeWhile_append2)

lemma not_list_all_takeWhile: "\<not> list_all P xs \<Longrightarrow> takeWhile P (xs @ ys) = takeWhile P xs"
  by (auto simp: list_all_iff intro: takeWhile_append1)

lemma bucket_cb_expired:
  assumes "all_readable rd pre" "list_all slot_used pre" "slot_used sl" "rd sl = KVExpired"
  shows "bucket_cb rd (pre @ sl # post) q = ((False, None), q @ concat (map (entry_items rd) pre))"
  using assms
proof (induction pre arbitrary: q)
  case Nil
  then show ?case by (simp add: slot_used_def)
next
  case (Cons x xs)
  then obtain k v where r: "rd x = KVOk k v" by (auto simp: all_readable_def split: kv_read.splits)
  have "bucket_cb rd (xs @ sl # post) (q @ [mk_item x k v]) = ((False, None), (q @ [mk_item x k v]) @ concat (map (entry_items rd) xs))"
    using Cons by (intro Cons.IH) (simp_all add: all_readable_def)
  moreover have "entry_items rd x = [mk_item x k v]" using r by (simp add: entry_items_def)
  ultimately show ?case using Cons.prems r by (simp add: slot_used_def mk_item_def)
qed

theorem for_each_chain_spec:
  "all_readable rd (takeWhile slot_used (concat bs)) \<Longrightarrow> for_each_chain rd bs [] = (None, chain_spec rd bs)"
proof (induction bs)
  case Nil
  then show ?case by (simp add: chain_spec_def)
next
  case (Cons b bs)
  show ?case
  proof (cases "list_all slot_used b")
    case True
    then have tw: "takeWhile slot_used (concat (b # bs)) = b @ takeWhile slot_used (concat bs)"
      by (simp add: list_all_takeWhile)
    then have ra: "all_readable rd b" "all_readable rd (takeWhile slot_used (concat bs))"
      using Cons.prems by (simp_all add: all_readable_def)
    have tb: "takeWhile slot_used b = b" using True by (simp add: list_all_iff)
    have "bucket_cb rd b [] = ((False, None), concat (map (entry_items rd) b))"
      using bucket_cb_readable [of rd b, unfolded tb] ra(1) True by simp
    then show ?thesis using Cons.IH [OF ra(2)] tw
        for_each_chain_append [of rd bs "concat (map (entry_items rd) b)"]
      by (simp add: chain_spec_def)
  next
    case False
    then have tw: "takeWhile slot_used (concat (b # bs)) = takeWhile slot_used b"
      by (simp add: not_list_all_takeWhile)
    then show ?thesis using Cons.prems bucket_cb_readable [of rd b] False
      by (simp add: chain_spec_def)
  qed
qed

subsection \<open>The documented loop, and read errors\<close>

lemma doc_loop_queue:
  "doc_loop env it = (if it_queue it = [] then [] else it_item it # butlast (it_queue it))"
proof (induction env it rule: doc_loop.induct)
  case (1 env it)
  show ?case
  proof (cases "it_queue it")
    case Nil
    then show ?thesis by (simp add: doc_loop.simps it_valid_def)
  next
    case (Cons y ys)
    then have "doc_loop env it = it_item it # doc_loop env (it_next env it)"
      by (subst doc_loop.simps) (simp add: it_valid_def)
    then show ?thesis using "1.IH" Cons by (simp add: it_valid_def it_next_def)
  qed
qed

text \<open>C22: The loop of the usage documentation (Next, then Item while Valid) stops when the queue of the first non-empty bucket runs out: it visits that bucket's entries except the last one and never reaches the other buckets, because Valid tests the queue after Next has already taken the current item out of it.\<close>

theorem doc_loop_one_bucket:
  "it_queue it = [] \<Longrightarrow> fill_loop env (it_nextBucketIdx it) [] = (True, i', q) \<Longrightarrow>
   doc_loop env (it_next env it) = butlast q"
  by (cases q) (simp_all add: doc_loop_queue it_next_def)

lemma it_take_stall:
  "it_nextBucketIdx it = 0 \<Longrightarrow> fst (for_each_chain (ie_read env) (ie_chain env 0) []) \<noteq> None \<Longrightarrow>
   it_nextBucketIdx (snd (it_take n env it)) = 0"
proof (induction n arbitrary: it)
  case 0
  then show ?case by simp
next
  case (Suc n)
  have f: "fst (snd (fill_loop env 0 [])) = 0"
    using Suc.prems(2) by (subst fill_loop.simps) (auto split: prod.splits option.splits)
  have "it_nextBucketIdx (it_next env it) = 0"
    using Suc.prems(1) f by (auto simp: it_next_def Let_def split: prod.splits)
  then have "it_nextBucketIdx (snd (it_take n env (it_next env it))) = 0"
    by (rule Suc.IH [OF _ Suc.prems(2)])
  then show ?case by (simp only: it_take_Suc' snd_conv)
qed

text \<open>C23: If reading bucket 0 fails, no number of Next calls ever moves the iterator past bucket 0 (it re-reads the bucket and hands out its first entries again), and Error still reports nil.\<close>

theorem iterator_stalls:
  "fst (for_each_chain (ie_read env) (ie_chain env 0) []) \<noteq> None \<Longrightarrow>
   it_nextBucketIdx (snd (it_take n env fresh_iterator)) = 0 \<and> it_error (snd (it_take n env fresh_iterator)) = None"
  using it_take_stall [of fresh_iterator env n] by (simp add: fresh_iterator_def it_error_def)

subsection \<open>The lemmas at concrete buckets\<close>

theorem iterator_enumerates_witness:
  "chains_ok (demo_env [[demo_slot 1, demo_slot 3]] [[demo_slot 4, demo_slot 0]]) 0
   \<and> items_from (demo_env [[demo_slot 1, demo_slot 3]] [[demo_slot 4, demo_slot 0]]) 0
       = [mk_item (demo_slot 1) [1] [7], mk_item (demo_slot 3) [3] [7], mk_item (demo_slot 4) [4] [7]]
   \<and> fst (it_take (length (items_from (demo_env [[demo_slot 1, demo_slot 3]] [[demo_slot 4, demo_slot 0]]) 0))
            (demo_env [[demo_slot 1, demo_slot 3]] [[demo_slot 4, demo_slot 0]]) fresh_iterator)
       = items_from (demo_env [[demo_slot 1, demo_slot 3]] [[demo_slot 4, demo_slot 0]]) 0"
proof -
  let ?E = "demo_env [[demo_slot 1, demo_slot 3]] [[demo_slot 4, demo_slot 0]]"
  have h: "chains_ok ?E 0" by code_simp
  have i: "items_from ?E 0
       = [mk_item (demo_slot 1) [1] [7], mk_item (demo_slot 3) [3] [7], mk_item (demo_slot 4) [4] [7]]"
    by code_simp
  show ?thesis using iterator_enumerates [OF h] h i by blast
qed

theorem for_each_chain_spec_witness:
  "all_readable demo_read (takeWhile slot_used (concat [[demo_slot 1, demo_slot 3], [demo_slot 4, demo_slot 0, demo_slot 2]]))
   \<and> for_each_chain demo_read [[demo_slot 1, demo_slot 3], [demo_slot 4, demo_slot 0, demo_slot 2]] []
       = (None, [mk_item (demo_slot 1) [1] [7], mk_item (demo_slot 3) [3] [7], mk_item (demo_slot 4) [4] [7]])"
proof -
  have h: "all_readable demo_read (takeWhile slot_used (concat [[demo_slot 1, demo_slot 3], [demo_slot 4, demo_slot 0, demo_slot 2]]))"
    by code_simp
  have c: "chain_spec demo_read [[demo_slot 1, demo_slot 3], [demo_slot 4, demo_slot 0, demo_slot 2]]
       = [mk_item (demo_slot 1) [1] [7], mk_item (demo_slot 3) [3] [7], mk_item (demo_slot 4) [4] [7]]"
    by code_simp
  show ?thesis using for_each_chain_spec [OF h] h c by simp
qed

text \<open>C21: In every bucket handle whose entries start with used, readable slots followed by a used slot whose key-value pair has expired, the callback of Next returns (false, nil) at the expired slot: forEachBucket goes on with the next handle as if the rest of this handle were absent, whatever it holds.\<close>

theorem expired_entry_hides_rest:
  assumes "all_readable rd pre" "list_all slot_used pre" "slot_used sl" "rd sl = KVExpired"
  shows "for_each_chain rd ((pre @ sl # post) # bs) q = for_each_chain rd bs (q @ concat (map (entry_items rd) pre))"
  using bucket_cb_expired [OF assms] by simp

theorem expired_entry_hides_rest_witness:
  "all_readable demo_read [demo_slot 1] \<and> list_all slot_used [demo_slot 1] \<and> slot_used (demo_slot 2)
   \<and> demo_read (demo_slot 2) = KVExpired
   \<and> for_each_chain demo_read (([demo_slot 1] @ demo_slot 2 # [demo_slot 3]) # []) []
       = for_each_chain demo_read [] ([] @ concat (map (entry_items demo_read) [demo_slot 1]))
   \<and> chain_spec demo_read [[demo_slot 1, demo_slot 2, demo_slot 3]]
       = [mk_item (demo_slot 1) [1] [7], mk_item (demo_slot 3) [3] [7]]"
proof -
  have h: "all_readable demo_read [demo_slot 1]" "list_all slot_used [demo_slot 1]" "slot_used (demo_slot 2)"
    "demo_read (demo_slot 2) = KVExpired"
    by (simp_all add: all_readable_def demo_read_def demo_slot_def slot_used_def)
  have s: "chain_spec demo_read [[demo_slot 1, demo_slot 2, demo_slot 3]]
       = [mk_item (demo_slot 1) [1] [7], mk_item (demo_slot 3) [3] [7]]"
    by code_simp
  show ?thesis by (intro conjI h s expired_entry_hides_rest [OF h])
qed

theorem doc_loop_one_bucket_witness:
  "it_queue fresh_iterator = []
   \<and> fill_loop (demo_env [[demo_slot 1, demo_slot 3]] [[demo_slot 4]]) (it_nextBucketIdx fresh_iterator) []
       = (True, 1, [mk_item (demo_slot 1) [1] [7], mk_item (demo_slot 3) [3] [7]])
   \<and> doc_loop (demo_env [[demo_slot 1, demo_slot 3]] [[demo_slot 4]])
       (it_next (demo_env [[demo_slot 1, demo_slot 3]] [[demo_slot 4]]) fresh_iterator)
       = [mk_item (demo_slot 1) [1] [7]]"
proof -
  have h1: "it_queue fresh_iterator = []" by (simp add: fresh_iterator_def)
  have h2: "fill_loop (demo_env [[demo_slot 1, demo_slot 3]] [[demo_slot 4]]) (it_nextBucketIdx fresh_iterator) []
       = (True, 1, [mk_item (demo_slot 1) [1] [7], mk_item (demo_slot 3) [3] [7]])"
    by code_simp
  show ?thesis using doc_loop_one_bucket [OF h1 h2] h1 h2 by simp
qed

theorem iterator_stalls_witness:
  "fst (for_each_chain (ie_read (demo_env [[demo_slot 1, demo_slot 9]] [[demo_slot 4]]))
          (ie_chain (demo_env [[demo_slot 1, demo_slot 9]] [[demo_slot 4]]) 0) []) = Some IOError
   \<and> it_nextBucketIdx (snd (it_take 3 (demo_env [[demo_slot 1, demo_slot 9]] [[demo_slot 4]]) fresh_iterator)) = 0
   \<and> fst (it_take 3 (demo_env [[demo_slot 1, demo_slot 9]] [[demo_slot 4]]) fresh_iterator)
       = [empty_item, mk_item (demo_slot 1) [1] [7], mk_item (demo_slot 1) [1] [7]]"
proof -
  let ?E = "demo_env [[demo_slot 1, demo_slot 9]] [[demo_slot 4]]"
  have h: "fst (for_each_chain (ie_read ?E) (ie_chain ?E 0) []) = Some IOError" by code_simp
  have t: "fst (it_take 3 ?E fresh_iterator) = [empty_item, mk_item (demo_slot 1) [1] [7], mk_item (demo_slot 1) [1] [7]]"
    by code_simp
  show ?thesis using iterator_stalls [of ?E 3] h t by simp
qed

end
