(* ===== verification/FileCopy.thy ===== *)
theory FileCopy
  imports Segments
begin

text \<open>
  \<open>_File.copy\<close> and \<open>_File.reset\<close> of the WAL file (\<open>wal/file.go\<close>, staged
  as \<open>src/unnamed/part_001\<close>, lines 142--194).  \<open>copy\<close> reads the file
  from its current position into a new file, through a buffer of at most
  \<open>bufferSize\<close> bytes at first.  The open \<open>os.File\<close> is its bytes and its
  read position (\<open>osfile\<close>); the new file is the list of bytes written to it.
  \<open>Sync\<close>, \<open>Stat\<close>, \<open>OpenFile\<close>, \<open>Seek\<close> and \<open>Truncate\<close> are assumed to
  succeed, and \<open>Read\<close> behaves as \<open>os.File.Read\<close>: it returns up to
  \<open>len(buf)\<close> bytes from the position, and 0 at the end of the file or for an
  empty buffer.  The byte counts are Go \<open>int64\<close> values no larger than the
  file, so they are integers here: they never reach \<open>2^63\<close>.  The sizes of
  the buffers that \<open>make\<close> allocates are recorded, so that the lemmas can speak
  of the memory \<open>copy\<close> uses.
\<close>

record osfile =
  of_data :: "byte list"
  of_pos :: nat

text \<open>
  The loop of \<open>copy\<close>: \<open>bs\<close> is \<open>bufSize\<close>, \<open>copied\<close> the bytes copied (\<open>size\<close>),
  \<open>out\<close> the new file and \<open>bufs\<close> the buffer sizes allocated so far.  It
  returns the count, the new file, the read position and the allocations.
\<close>

function copy_loop :: "byte list \<Rightarrow> nat \<Rightarrow> int \<Rightarrow> int \<Rightarrow> byte list \<Rightarrow> int list \<Rightarrow> int \<times> byte list \<times> nat \<times> int list" where
  "copy_loop data pos bs copied out bufs =
     (let n = min (nat bs) (length data - pos)
      in if n = 0 then (copied, out, pos, bufs)
         else let copied' = copied + int n;
                  out' = out @ take n (drop pos data)
              in if bs \<le> int (length data) - copied'
                 then copy_loop data (pos + n) (int (length data) - copied') copied' out' (bufs @ [int (length data) - copied'])
                 else copy_loop data (pos + n) bs copied' out' bufs)"
  by pat_completeness auto
termination
  by (relation "measure (\<lambda>(data, pos, bs, copied, out, bufs). length data - pos)") auto

declare copy_loop.simps [simp del]

definition file_copy :: "osfile \<Rightarrow> i64 \<Rightarrow> (go_error + i64 \<times> byte list) \<times> osfile \<times> int list" where
  "file_copy f bufferSize =
     (let st = int (length (of_data f))
      in if st = 0 then (Inr (0, []), f, [])
         else let bs = (if st > sint bufferSize then sint bufferSize else st)
              in if bs < 0 then (Inl (Panic ''makeslice: len out of range''), f, [])
                 else case copy_loop (of_data f) (of_pos f) bs 0 [] [bs] of
                   (copied, out, pos, bufs) \<Rightarrow> (Inr (word_of_int copied, out), f\<lparr>of_pos := pos\<rparr>, bufs))"

text \<open>
  \<open>reset\<close> on the WAL file state of \<open>Segments\<close> and the open file:
  \<open>f.size = 0\<close> happens before \<open>truncate(0)\<close>, so a failed truncate
  leaves the size 0 and the bytes in place; as in \<open>file_truncate\<close>, the flag
  \<open>io_ok\<close> says whether the system call succeeds.
\<close>

definition file_reset :: "bool \<Rightarrow> wal_file \<Rightarrow> osfile \<Rightarrow> go_error option \<times> wal_file \<times> osfile" where
  "file_reset io_ok w f =
     (case file_truncate io_ok 0 (w\<lparr>fsize := 0\<rparr>) of
        Inl e \<Rightarrow> (Some e, w\<lparr>fsize := 0\<rparr>, f)
      | Inr w' \<Rightarrow> (None, w', \<lparr>of_data = [], of_pos = 0\<rparr>))"


text \<open>
  \<open>openFile\<close>: open (or create) the file and read its size.  The outcomes of
  \<open>os.OpenFile\<close> and \<open>Stat\<close> are inputs.  The \<open>_File\<close> starts as the zero
  value, so its segments are all zero (not \<open>newSegments\<close>); on an error it is
  returned as far as it was filled.
\<close>

definition zero_wal_file :: wal_file where
  "zero_wal_file =
     \<lparr>segments = \<lparr>sg0 = \<lparr>seg_offset = 0, seg_size = 0\<rparr>, sg1 = \<lparr>seg_offset = 0, seg_size = 0\<rparr>,
                   sg2 = \<lparr>seg_offset = 0, seg_size = 0\<rparr>\<rparr>,
      fsize = 0, targetSize = 0\<rparr>"

definition wal_openFile :: "go_error option \<Rightarrow> go_error + i64 \<Rightarrow> i64 \<Rightarrow> wal_file \<times> go_error option" where
  "wal_openFile openErr stat tsize =
     (case openErr of
        Some err \<Rightarrow> (zero_wal_file, Some err)
      | None \<Rightarrow>
          (case stat of
             Inl err \<Rightarrow> (zero_wal_file, Some err)
           | Inr sz \<Rightarrow> (zero_wal_file\<lparr>fsize := sz, targetSize := tsize\<rparr>, None)))"

text \<open>\<open>_File.Size\<close>: the size the file keeps, not the operating system's.\<close>

definition wal_fileSize :: "wal_file \<Rightarrow> i64" where
  "wal_fileSize w = fsize w"

text \<open>Files for the examples: 15 and 100 bytes, read position at the start.\<close>

definition demo_osfile :: "nat \<Rightarrow> osfile" where
  "demo_osfile n = \<lparr>of_data = replicate n 1, of_pos = 0\<rparr>"

subsection \<open>The copy loop\<close>

lemma copy_loop_complete:
  "0 < bs \<Longrightarrow> copy_loop data pos bs c out bufs = (c', out', pos', bufs') \<Longrightarrow>
   c' = c + int (length data - pos) \<and> out' = out @ drop pos data \<and> pos' = max pos (length data)"
proof (induction data pos bs c out bufs arbitrary: c' out' pos' bufs' rule: copy_loop.induct)
  case (1 data pos bs c out bufs)
  let ?n = "min (nat bs) (length data - pos)"
  show ?case
  proof (cases "?n = 0")
    case True
    then have "length data \<le> pos" using "1.prems"(1) by auto
    then show ?thesis using "1.prems" True by (simp add: copy_loop.simps)
  next
    case False
    let ?c = "c + int ?n" and ?o = "out @ take ?n (drop pos data)"
    have d: "?o @ drop (pos + ?n) data = out @ drop pos data"
      by (metis append.assoc add.commute append_take_drop_id drop_drop)
    have l: "?c + int (length data - (pos + ?n)) = c + int (length data - pos)" using False by auto
    have m: "max (pos + ?n) (length data) = max pos (length data)" using False by auto
    have fin: "c' = ?c + int (length data - (pos + ?n)) \<and> out' = ?o @ drop (pos + ?n) data
               \<and> pos' = max (pos + ?n) (length data) \<Longrightarrow> ?thesis"
      using d l m by simp
    show ?thesis
    proof (cases "bs \<le> int (length data) - ?c")
      case True
      then have "0 < int (length data) - ?c" using "1.prems"(1) by linarith
      moreover have "copy_loop data (pos + ?n) (int (length data) - ?c) ?c ?o (bufs @ [int (length data) - ?c]) = (c', out', pos', bufs')"
        using "1.prems"(2) False True by (subst (asm) copy_loop.simps) (simp add: Let_def)
      ultimately show ?thesis using "1.IH"(1) [OF refl False refl refl True] fin by blast
    next
      case nb: False
      have "copy_loop data (pos + ?n) bs ?c ?o bufs = (c', out', pos', bufs')"
        using "1.prems"(2) False nb by (subst (asm) copy_loop.simps) (simp add: Let_def)
      then show ?thesis using "1.IH"(2) [OF refl False refl refl nb "1.prems"(1)] fin by blast
    qed
  qed
qed

lemma copy_loop_stop: "length data \<le> pos \<Longrightarrow> copy_loop data pos bs c out bufs = (c, out, pos, bufs)"
  by (subst copy_loop.simps) simp

lemma copy_loop_step:
  assumes "0 < n" "min (nat bs) (length data - pos) = n"
  shows "copy_loop data pos bs c out bufs =
     (if bs \<le> int (length data) - (c + int n)
      then copy_loop data (pos + n) (int (length data) - (c + int n)) (c + int n) (out @ take n (drop pos data))
             (bufs @ [int (length data) - (c + int n)])
      else copy_loop data (pos + n) bs (c + int n) (out @ take n (drop pos data)) bufs)"
proof -
  have "copy_loop data pos bs c out bufs =
     (let n = min (nat bs) (length data - pos)
      in if n = 0 then (c, out, pos, bufs)
         else let copied' = c + int n;
                  out' = out @ take n (drop pos data)
              in if bs \<le> int (length data) - copied'
                 then copy_loop data (pos + n) (int (length data) - copied') copied' out' (bufs @ [int (length data) - copied'])
                 else copy_loop data (pos + n) bs copied' out' bufs)"
    by (rule copy_loop.simps)
  then show ?thesis unfolding Let_def assms(2) using assms(1) by simp
qed

text \<open>C30: With a positive bufferSize, _File.copy always ends and copies exactly the bytes from the read position to the end of the file, returns their number and leaves the position at the end; so a second copy without reset copies nothing.\<close>

theorem file_copy_complete:
  "0 < sint b \<Longrightarrow>
   fst (file_copy f b) = Inr (word_of_nat (length (of_data f) - of_pos f), drop (of_pos f) (of_data f))
   \<and> of_pos (fst (snd (file_copy f b))) = max (of_pos f) (length (of_data f))"
proof (cases "of_data f = []")
  case True
  then show ?thesis by (simp add: file_copy_def)
next
  case False
  assume b: "0 < sint b"
  let ?bs = "if int (length (of_data f)) > sint b then sint b else int (length (of_data f))"
  have bs: "0 < ?bs" using b False by auto
  obtain c' out' pos' bufs' where r: "copy_loop (of_data f) (of_pos f) ?bs 0 [] [?bs] = (c', out', pos', bufs')"
    by (cases "copy_loop (of_data f) (of_pos f) ?bs 0 [] [?bs]") auto
  note cl = copy_loop_complete [OF bs r]
  have "file_copy f b = (Inr (word_of_int c', out'), f\<lparr>of_pos := pos'\<rparr>, bufs')"
    using False bs r by (simp add: file_copy_def Let_def)
  then show ?thesis using cl by simp
qed

text \<open>C31: When the file is more than twice bufferSize, _File.copy allocates a buffer of bufferSize and then one of all the remaining bytes: the buffer is capped by bufferSize only for files of at most twice that size.\<close>

theorem file_copy_allocations:
  "0 < sint b \<Longrightarrow> 2 * sint b < int (length (of_data f)) \<Longrightarrow> of_pos f = 0 \<Longrightarrow>
   snd (snd (file_copy f b)) = [sint b, int (length (of_data f)) - sint b]"
proof -
  assume b: "0 < sint b" and l: "2 * sint b < int (length (of_data f))" and p: "of_pos f = 0"
  let ?d = "of_data f" and ?B = "nat (sint b)"
  let ?L = "length ?d"
  have B: "int ?B = sint b" "?B < ?L" "0 < ?B" using b l by auto
  have s1: "copy_loop ?d 0 (sint b) 0 [] [sint b]
      = copy_loop ?d ?B (int ?L - sint b) (sint b) (take ?B ?d) [sint b, int ?L - sint b]"
    using B l by (subst copy_loop_step [of ?B]) auto
  have s2: "copy_loop ?d ?B (int ?L - sint b) (sint b) (take ?B ?d) [sint b, int ?L - sint b]
      = copy_loop ?d ?L (int ?L - sint b) (int ?L) (take ?B ?d @ take (?L - ?B) (drop ?B ?d)) [sint b, int ?L - sint b]"
    using B l by (subst copy_loop_step [of "?L - ?B"]) auto
  have s3: "copy_loop ?d ?L (int ?L - sint b) (int ?L) (take ?B ?d @ take (?L - ?B) (drop ?B ?d)) [sint b, int ?L - sint b]
      = (int ?L, take ?B ?d @ take (?L - ?B) (drop ?B ?d), ?L, [sint b, int ?L - sint b])"
    by (rule copy_loop_stop) simp
  have ne: "?d \<noteq> []" using b l by auto
  show ?thesis using s1 s2 s3 b l p ne by (simp add: file_copy_def Let_def)
qed


lemma file_copy_zero_buffer:
  "sint b = 0 \<Longrightarrow> of_data f \<noteq> [] \<Longrightarrow> fst (file_copy f b) = Inr (0, [])"
  by (simp add: file_copy_def Let_def copy_loop.simps)

subsection \<open>The lemmas on concrete files\<close>

theorem file_copy_complete_witness:
  "0 < sint (10::i64)
   \<and> fst (file_copy (demo_osfile 15) 10) = Inr (15, replicate 15 1)
   \<and> of_pos (fst (snd (file_copy (demo_osfile 15) 10))) = 15"
proof -
  have h: "0 < sint (10::i64)" by simp
  show ?thesis using file_copy_complete [OF h, of "demo_osfile 15"] h by (simp add: demo_osfile_def)
qed

theorem file_copy_allocations_witness:
  "0 < sint (10::i64) \<and> 2 * sint (10::i64) < int (length (of_data (demo_osfile 100)))
   \<and> of_pos (demo_osfile 100) = 0
   \<and> snd (snd (file_copy (demo_osfile 100) 10)) = [10, 90]"
proof -
  have h: "0 < sint (10::i64)" "2 * sint (10::i64) < int (length (of_data (demo_osfile 100)))"
     "of_pos (demo_osfile 100) = 0" by (simp_all add: demo_osfile_def)
  show ?thesis using file_copy_allocations [OF h] h by (simp add: demo_osfile_def)
qed

subsection \<open>Opening\<close>

text \<open>
  A file opened without error has the size \<open>Stat\<close> reported, its target size,
  and zero segments; any error leaves the zero file.
\<close>

lemma wal_openFile_ok:
  "wal_openFile None (Inr sz) t = (zero_wal_file\<lparr>fsize := sz, targetSize := t\<rparr>, None)
   \<and> wal_fileSize (fst (wal_openFile None (Inr sz) t)) = sz
   \<and> segments (fst (wal_openFile None (Inr sz) t)) \<noteq> newSegments"
  by (simp add: wal_openFile_def wal_fileSize_def zero_wal_file_def newSegments_def headerSize_def)

lemma wal_openFile_error:
  "openErr \<noteq> None \<or> (\<exists>e. stat = Inl e) \<Longrightarrow> fst (wal_openFile openErr stat t) = zero_wal_file \<and> snd (wal_openFile openErr stat t) \<noteq> None"
  by (auto simp: wal_openFile_def split: option.split sum.split)

end
