(* ===== verification/WalFileIO.thy ===== *)
theory WalFileIO
  imports FileCopy TraceFile
begin

text \<open>
  The reads and writes of the WAL's \<open>_File\<close> (\<open>src/unnamed/part_001\<close>, lines
  214--233): \<open>readAt\<close>, \<open>writeMarshalableAt\<close> and \<open>readUnmarshalableAt\<close> on
  the bytes of the open file of \<open>FileCopy\<close>, through the \<open>os.File\<close> calls of
  \<open>TraceFile\<close>.  They are the same code as the tracedb file helper's methods;
  the lemmas show that they compute the same results on the same bytes, so the
  round trip of the tracedb helper carries over to the WAL.  \<open>ReadAt\<close> and
  \<open>WriteAt\<close> do not move the read position of the file.
\<close>

definition wal_readAt :: "osfile \<Rightarrow> nat \<Rightarrow> i64 \<Rightarrow> go_error + byte list" where
  "wal_readAt f n off = os_readAt (of_data f) n off"

definition wal_writeMarshalableAt :: "('a \<Rightarrow> byte list) \<Rightarrow> osfile \<Rightarrow> 'a \<Rightarrow> i64 \<Rightarrow> go_error option \<times> osfile" where
  "wal_writeMarshalableAt marshal f m off =
     (case os_writeAt (of_data f) (marshal m) off of
        Inl e \<Rightarrow> (Some e, f)
      | Inr d \<Rightarrow> (None, f\<lparr>of_data := d\<rparr>))"

definition wal_readUnmarshalableAt :: "(byte list \<Rightarrow> 'a option) \<Rightarrow> osfile \<Rightarrow> u32 \<Rightarrow> i64 \<Rightarrow> go_error + 'a" where
  "wal_readUnmarshalableAt unmarshal f sz off =
     (case wal_readAt f (unat sz) off of
        Inl e \<Rightarrow> Inl e
      | Inr buf \<Rightarrow> (case unmarshal buf of None \<Rightarrow> Inl (Panic ''slice bounds out of range'') | Some m \<Rightarrow> Inr m))"

subsection \<open>The WAL file and the tracedb file do the same\<close>

theorem wal_file_io_agrees:
  assumes "tf_data t = of_data f"
  shows "wal_writeMarshalableAt marshal f m off
           = (fst (tf_writeMarshalableAt marshal t m off), f\<lparr>of_data := tf_data (snd (tf_writeMarshalableAt marshal t m off))\<rparr>)
         \<and> wal_readUnmarshalableAt unmarshal f sz off = tf_readUnmarshalableAt unmarshal t sz off"
  using assms
  by (simp add: wal_writeMarshalableAt_def tf_writeMarshalableAt_def wal_readUnmarshalableAt_def
                tf_readUnmarshalableAt_def wal_readAt_def split: sum.splits)

theorem wal_marshal_roundtrip:
  assumes "codec_ok marshal unmarshal" "0 \<le> sint off" "length (marshal m) < 2^32"
  shows "fst (wal_writeMarshalableAt marshal f m off) = None
         \<and> wal_readUnmarshalableAt unmarshal (snd (wal_writeMarshalableAt marshal f m off))
              (word_of_nat (length (marshal m))) off = Inr m"
proof -
  let ?t = "tf_empty\<lparr>tf_data := of_data f\<rparr>"
  let ?w = "snd (tf_writeMarshalableAt marshal ?t m off)"
  have w: "wal_writeMarshalableAt marshal f m off = (fst (tf_writeMarshalableAt marshal ?t m off), f\<lparr>of_data := tf_data ?w\<rparr>)"
    by (rule conjunct1 [OF wal_file_io_agrees]) simp
  have r: "wal_readUnmarshalableAt unmarshal (f\<lparr>of_data := tf_data ?w\<rparr>) sz off = tf_readUnmarshalableAt unmarshal ?w sz off" for sz
    by (rule conjunct2 [OF wal_file_io_agrees]) simp
  show ?thesis using tf_marshal_roundtrip [OF assms, of ?t] w r by simp
qed

lemma wal_readAt_keeps_position:
  "wal_readAt f n off = Inr buf \<Longrightarrow> buf = take n (drop (nat (sint off)) (of_data f)) \<and> length buf = n"
  by (auto simp: wal_readAt_def os_readAt_def split: if_splits)

end
