(* ===== verification/MmapFile.thy ===== *)
theory MmapFile
  imports Prelude
begin

text \<open>
  The memory-mapped file of package \<open>fs\<close> (the Go code at the end of
  \<open>src/docs/usage/advanced.md\<close>, lines 313--436): \<open>OSFile\<close> embeds an
  \<open>os.File\<close> and keeps the mapped region \<open>data\<close> and its size
  \<open>mmapSize\<close>.  \<open>OpenFile\<close> maps a non-empty file, \<open>Slice\<close> reads the
  region, \<open>Close\<close> unmaps and closes, and \<open>Mmap\<close> maps 1 GiB or the file
  size the first time and doubles the region each later time.

  The mapping is shared, so the region shows the current bytes of the file: the
  model keeps the file's bytes and, for \<open>data\<close>, only the length of the region
  (\<open>None\<close> is a nil slice).  Whether that region is still mapped is the
  operating system's state, the flag \<open>mm_live\<close>: \<open>munmap\<close> clears it but
  leaves \<open>data\<close> pointing at the old addresses.  Reading a region that is no
  longer mapped faults, and so does reading a page past the file's end; a
  \<open>Slice\<close> whose bytes would fault is the value \<open>Panic\<close>, the fault of its
  caller's first read.  \<open>mmap\<close> and \<open>munmap\<close> (\<open>mmap_unix.go\<close>) are not
  in the sources: their outcomes are inputs, and a successful \<open>mmap\<close> maps the
  size it was asked for.  \<open>madviceRandom\<close> is advice and changes nothing.
\<close>

record mmfile =
  mm_file :: "byte list"
  mm_data :: "nat option"
  mm_mmapSize :: i64
  mm_live :: bool
  mm_closed :: bool

definition initialMmapSize :: i64 where
  "initialMmapSize = push_bit 20 1024"

definition ErrUnmappedMemory :: go_error where
  "ErrUnmappedMemory = GoErr ''unmapped memory''"

definition ErrIndexOutOfBound :: go_error where
  "ErrIndexOutOfBound = GoErr ''offset out of mapped region''"

definition os_ErrClosed :: go_error where
  "os_ErrClosed = GoErr ''file already closed''"

text \<open>The readable part of a shared mapping: the file's bytes up to the end of its last page.\<close>

definition page_end :: "nat \<Rightarrow> nat" where
  "page_end n = (n + 4095) div 4096 * 4096"

definition mm_Slice :: "mmfile \<Rightarrow> i64 \<Rightarrow> i64 \<Rightarrow> go_error + byte list" where
  "mm_Slice f start end =
     (case mm_data f of
        None \<Rightarrow> Inl os_ErrClosed
      | Some len \<Rightarrow>
          if \<not> (0 \<le> sint start \<and> sint start \<le> sint end \<and> sint end \<le> int len)
          then Inl (Panic ''slice bounds out of range'')
          else if start = end then Inr []
          else if \<not> mm_live f \<or> page_end (length (mm_file f)) < nat (sint end)
          then Inl (Panic ''unexpected fault address'')
          else Inr (take (nat (sint end - sint start))
                      (drop (nat (sint start)) (mm_file f @ replicate (nat (sint end)) 0))))"

text \<open>The mapping at the end of \<open>Mmap\<close> (lines 426--435).\<close>

definition mm_remap :: "go_error option \<Rightarrow> mmfile \<Rightarrow> i64 \<Rightarrow> go_error option \<times> mmfile" where
  "mm_remap mmapErr f mmapSize =
     (case mmapErr of
        Some err \<Rightarrow> (Some err, f)
      | None \<Rightarrow> (None, f\<lparr>mm_data := Some (nat (sint mmapSize)), mm_mmapSize := mmapSize, mm_live := True\<rparr>))"

definition mm_Mmap :: "go_error option \<Rightarrow> go_error option \<Rightarrow> mmfile \<Rightarrow> i64 \<Rightarrow> go_error option \<times> mmfile" where
  "mm_Mmap munmapErr mmapErr f fileSize =
     (let mmapSize = mm_mmapSize f in
      if fileSize \<noteq> 0 \<and> fileSize \<le>s mmapSize then (None, f)
      else if mmapSize = 0
      then mm_remap mmapErr f (if initialMmapSize <s fileSize then fileSize else initialMmapSize)
      else case munmapErr of
             Some err \<Rightarrow> (Some err, f)
           | None \<Rightarrow> mm_remap mmapErr (f\<lparr>mm_live := False\<rparr>) (mmapSize * 2))"

definition os_close :: "mmfile \<Rightarrow> go_error option \<times> mmfile" where
  "os_close f = (if mm_closed f then (Some os_ErrClosed, f) else (None, f\<lparr>mm_closed := True\<rparr>))"

definition mm_Close :: "go_error option \<Rightarrow> mmfile \<Rightarrow> go_error option \<times> mmfile" where
  "mm_Close munmapErr f =
     (if mm_data f \<noteq> None
      then (case munmapErr of
              Some _ \<Rightarrow> (None, f)
            | None \<Rightarrow> os_close (f\<lparr>mm_data := None, mm_live := False\<rparr>))
      else os_close f)"

text \<open>
  \<open>osfs.OpenFile\<close>: the outcome of \<open>os.OpenFile\<close> (the file's bytes or an
  error), of \<open>Stat\<close> and of the first \<open>mmap\<close> are inputs; every error returns
  a nil \<open>FileManager\<close>.
\<close>

definition mm_OpenFile :: "go_error + byte list \<Rightarrow> go_error option \<Rightarrow> go_error option \<Rightarrow> go_error + mmfile" where
  "mm_OpenFile opened statErr mmapErr =
     (case opened of
        Inl err \<Rightarrow> Inl err
      | Inr bytes \<Rightarrow>
          (case statErr of
             Some err \<Rightarrow> Inl err
           | None \<Rightarrow>
               let mf = \<lparr>mm_file = bytes, mm_data = None, mm_mmapSize = 0, mm_live = False, mm_closed = False\<rparr>;
                   sz = (word_of_nat (length bytes) :: i64)
               in if 0 <s sz
                  then (case mm_Mmap None mmapErr mf sz of
                          (Some err, _) \<Rightarrow> Inl err
                        | (None, mf') \<Rightarrow> Inr mf')
                  else Inr mf))"

text \<open>
  The invariant of a mapped file: a live region is \<open>data\<close> of exactly
  \<open>mmapSize\<close> bytes, and that size is positive.
\<close>

definition mm_inv :: "mmfile \<Rightarrow> bool" where
  "mm_inv f = (\<not> mm_live f \<or> mm_data f = Some (nat (sint (mm_mmapSize f))) \<and> 0 < sint (mm_mmapSize f))"

text \<open>A file of 1 GiB mapped by the first \<open>Mmap\<close>, for the examples.\<close>

definition demo_mapped :: mmfile where
  "demo_mapped = \<lparr>mm_file = [], mm_data = Some 1073741824, mm_mmapSize = 1073741824, mm_live = True, mm_closed = False\<rparr>"

subsection \<open>Opening and growing the mapping\<close>

lemma sint_initialMmapSize: "sint initialMmapSize = 1073741824"
  by (simp add: initialMmapSize_def)

lemma page_end_ge: "n \<le> page_end n"
  unfolding page_end_def by linarith

lemma mm_Slice_prefix:
  assumes "mm_data f = Some len" "mm_live f" "sint e = int (length (mm_file f))" "length (mm_file f) \<le> len" "0 < length (mm_file f)"
  shows "mm_Slice f 0 e = Inr (mm_file f)"
proof -
  have "e \<noteq> 0" using assms(3,5) by auto
  then show ?thesis using assms page_end_ge [of "length (mm_file f)"] by (simp add: mm_Slice_def)
qed

theorem mm_OpenFile_maps:
  assumes "0 < length bytes" "length bytes < 2^63"
  shows "\<exists>f. mm_OpenFile (Inr bytes) None None = Inr f \<and> mm_live f \<and> mm_file f = bytes
            \<and> sint (mm_mmapSize f) = max 1073741824 (int (length bytes))
            \<and> mm_Slice f 0 (word_of_nat (length bytes)) = Inr bytes"
proof -
  let ?sz = "word_of_nat (length bytes) :: i64"
  have s: "sint ?sz = int (length bytes)" using sint_of_nat_i64 [OF assms(2)] .
  have p: "0 <s ?sz" using s assms(1) by (simp add: word_sless_alt)
  let ?S = "if initialMmapSize <s ?sz then ?sz else initialMmapSize"
  have S: "sint ?S = max 1073741824 (int (length bytes))"
    using s by (auto simp: word_sless_alt sint_initialMmapSize)
  let ?f = "\<lparr>mm_file = bytes, mm_data = Some (nat (sint ?S)), mm_mmapSize = ?S, mm_live = True, mm_closed = False\<rparr>"
  have o: "mm_OpenFile (Inr bytes) None None = Inr ?f"
    using p by (simp add: mm_OpenFile_def mm_Mmap_def mm_remap_def Let_def word_sless_alt word_sle_eq)
  have "mm_Slice ?f 0 ?sz = Inr bytes"
    using mm_Slice_prefix [of ?f "nat (sint ?S)" ?sz] s S assms by simp
  then show ?thesis using o S by auto
qed


lemma sint_double:
  "0 \<le> sint (m::i64) \<Longrightarrow> sint m < 2^62 \<Longrightarrow> sint (m * 2) = 2 * sint m"
proof -
  assume a: "0 \<le> sint m" "sint m < 2^62"
  have e: "m * 2 = m + m" by simp
  have "sint (m + m) = sint m + sint m" using a by (intro sint_add_nonneg) simp_all
  then show ?thesis unfolding e by simp
qed

lemma mm_Mmap_remaps:
  assumes "mm_mmapSize f = m" "0 < sint m" "sint m < 2^62" "sint m < sint fileSize"
  shows "mm_Mmap None None f fileSize
           = (None, f\<lparr>mm_live := False, mm_data := Some (nat (2 * sint m)), mm_mmapSize := m * 2, mm_live := True\<rparr>)"
proof -
  have "fileSize \<noteq> 0" "\<not> fileSize \<le>s m" "m \<noteq> 0" using assms by (auto simp: word_sle_eq)
  then show ?thesis using assms sint_double [of m] by (simp add: mm_Mmap_def mm_remap_def Let_def)
qed

theorem mm_Mmap_covers:
  assumes "mm_mmapSize f = m" "0 < sint m" "sint m < 2^62" "sint m < sint fileSize" "sint fileSize \<le> 2 * sint m"
    and "length (mm_file f) = nat (sint fileSize)"
  shows "mm_Slice (snd (mm_Mmap None None f fileSize)) 0 fileSize = Inr (mm_file f)"
proof -
  let ?g = "f\<lparr>mm_live := False, mm_data := Some (nat (2 * sint m)), mm_mmapSize := m * 2, mm_live := True\<rparr>"
  have "0 < length (mm_file f)" using assms by linarith
  then have "mm_Slice ?g 0 fileSize = Inr (mm_file ?g)"
    using mm_Slice_prefix [of ?g "nat (2 * sint m)" fileSize] assms by simp
  then show ?thesis using mm_Mmap_remaps [OF assms(1-4)] by simp
qed

theorem mm_Mmap_doubles_once:
  assumes "mm_mmapSize f = m" "0 < sint m" "sint m < 2^62" "2 * sint m < sint fileSize"
  shows "mm_Mmap None None f fileSize = (None, f\<lparr>mm_live := False, mm_data := Some (nat (2 * sint m)), mm_mmapSize := m * 2, mm_live := True\<rparr>)
         \<and> sint (mm_mmapSize (snd (mm_Mmap None None f fileSize))) < sint fileSize
         \<and> mm_Slice (snd (mm_Mmap None None f fileSize)) 0 fileSize = Inl (Panic ''slice bounds out of range'')"
proof -
  have r: "mm_Mmap None None f fileSize = (None, f\<lparr>mm_live := False, mm_data := Some (nat (2 * sint m)), mm_mmapSize := m * 2, mm_live := True\<rparr>)"
  proof -
    have "fileSize \<noteq> 0" "\<not> fileSize \<le>s m" "m \<noteq> 0" using assms by (auto simp: word_sle_eq)
    then show ?thesis using assms sint_double [of m] by (simp add: mm_Mmap_def mm_remap_def Let_def)
  qed
  then show ?thesis using assms sint_double [of m] by (simp add: mm_Slice_def)
qed

text \<open>C12: When OSFile.Mmap has to grow a mapped file and munmap succeeds but the new mmap fails, Mmap returns the error yet keeps f.data and mmapSize pointing at the region it has just unmapped, so a later Slice of that region faults instead of returning an error.\<close>

theorem mm_Mmap_failed_remap_stale:
  assumes "mm_data f = Some len" "0 < len" "mm_mmapSize f \<noteq> 0" "\<not> fileSize \<le>s mm_mmapSize f"
  shows "mm_Mmap None (Some err) f fileSize = (Some err, f\<lparr>mm_live := False\<rparr>)
         \<and> mm_Slice (f\<lparr>mm_live := False\<rparr>) 0 1 = Inl (Panic ''unexpected fault address'')"
  using assms by (simp add: mm_Mmap_def mm_remap_def mm_Slice_def Let_def)

lemma mm_Mmap_stale_fits:
  "fileSize \<noteq> 0 \<Longrightarrow> fileSize \<le>s mm_mmapSize f \<Longrightarrow> mm_Mmap ue me (f\<lparr>mm_live := False\<rparr>) fileSize = (None, f\<lparr>mm_live := False\<rparr>)"
  by (simp add: mm_Mmap_def)

theorem mm_Close_munmap_error:
  "mm_data f \<noteq> None \<Longrightarrow> mm_Close (Some err) f = (None, f)"
  by (simp add: mm_Close_def)

theorem mm_Slice_past_region:
  assumes "mm_data f = Some len" "0 \<le> sint start" "sint start \<le> sint end" "int len < sint end"
  shows "mm_Slice f start end = Inl (Panic ''slice bounds out of range'') \<and> mm_Slice f start end \<noteq> Inl ErrIndexOutOfBound"
  using assms by (simp add: mm_Slice_def ErrIndexOutOfBound_def)

lemma mm_remap_inv: "mm_inv f \<Longrightarrow> 0 < sint S \<Longrightarrow> mm_inv (snd (mm_remap e f S))"
  by (simp add: mm_remap_def mm_inv_def split: option.splits)

theorem mm_Mmap_inv:
  assumes "mm_inv f" "0 \<le> sint (mm_mmapSize f)" "sint (mm_mmapSize f) < 2^62" "0 \<le> sint fileSize"
  shows "mm_inv (snd (mm_Mmap ue me f fileSize))"
proof -
  let ?m = "mm_mmapSize f"
  have i: "0 < sint initialMmapSize" by (simp add: sint_initialMmapSize)
  have first: "0 < sint (if initialMmapSize <s fileSize then fileSize else initialMmapSize)"
    using i by (auto simp: word_sless_alt)
  have "?m \<noteq> 0 \<Longrightarrow> sint ?m \<noteq> 0" using signed_word_eqI [of ?m 0] by auto
  then have "?m \<noteq> 0 \<Longrightarrow> 0 < sint (?m * 2)" using assms(2,3) sint_double [of ?m] by auto
  moreover have "mm_inv (f\<lparr>mm_live := False\<rparr>)" by (simp add: mm_inv_def)
  ultimately show ?thesis using assms(1) first mm_remap_inv
    by (auto simp: mm_Mmap_def Let_def split: option.splits)
qed

theorem mm_Close_inv: "mm_inv f \<Longrightarrow> mm_inv (snd (mm_Close e f))"
  by (auto simp: mm_Close_def os_close_def mm_inv_def split: option.splits)

subsection \<open>The lemmas on a mapped file\<close>

theorem mm_Mmap_doubles_once_witness:
  "mm_mmapSize demo_mapped = 1073741824 \<and> 0 < sint (1073741824 :: i64) \<and> sint (1073741824 :: i64) < 2^62
   \<and> 2 * sint (1073741824 :: i64) < sint (3221225472 :: i64)
   \<and> mm_Mmap None None demo_mapped 3221225472
       = (None, demo_mapped\<lparr>mm_live := False, mm_data := Some (nat (2 * sint (1073741824 :: i64))),
                            mm_mmapSize := 1073741824 * 2, mm_live := True\<rparr>)
   \<and> sint (mm_mmapSize (snd (mm_Mmap None None demo_mapped 3221225472))) < sint (3221225472 :: i64)
   \<and> mm_Slice (snd (mm_Mmap None None demo_mapped 3221225472)) 0 3221225472 = Inl (Panic ''slice bounds out of range'')"
proof -
  have h: "mm_mmapSize demo_mapped = 1073741824" "0 < sint (1073741824 :: i64)" "sint (1073741824 :: i64) < 2^62"
    "2 * sint (1073741824 :: i64) < sint (3221225472 :: i64)"
    by (simp_all add: demo_mapped_def)
  have c: "mm_Mmap None None demo_mapped 3221225472
       = (None, demo_mapped\<lparr>mm_live := False, mm_data := Some (nat (2 * sint (1073741824 :: i64))),
                            mm_mmapSize := 1073741824 * 2, mm_live := True\<rparr>)
   \<and> sint (mm_mmapSize (snd (mm_Mmap None None demo_mapped 3221225472))) < sint (3221225472 :: i64)
   \<and> mm_Slice (snd (mm_Mmap None None demo_mapped 3221225472)) 0 3221225472 = Inl (Panic ''slice bounds out of range'')"
    by (rule mm_Mmap_doubles_once [OF h])
  show ?thesis using h c by (intro conjI) blast+
qed

theorem mm_Mmap_failed_remap_stale_witness:
  "mm_data demo_mapped = Some 1073741824 \<and> (0::nat) < 1073741824 \<and> mm_mmapSize demo_mapped \<noteq> 0
   \<and> \<not> (2147483648 :: i64) \<le>s mm_mmapSize demo_mapped
   \<and> mm_Mmap None (Some IOError) demo_mapped 2147483648 = (Some IOError, demo_mapped\<lparr>mm_live := False\<rparr>)
   \<and> mm_Slice (demo_mapped\<lparr>mm_live := False\<rparr>) 0 1 = Inl (Panic ''unexpected fault address'')"
proof -
  have h: "mm_data demo_mapped = Some 1073741824" "(0::nat) < 1073741824" "mm_mmapSize demo_mapped \<noteq> 0"
    "\<not> (2147483648 :: i64) \<le>s mm_mmapSize demo_mapped"
    by (simp_all add: demo_mapped_def word_sle_eq)
  have c: "mm_Mmap None (Some IOError) demo_mapped 2147483648 = (Some IOError, demo_mapped\<lparr>mm_live := False\<rparr>)
   \<and> mm_Slice (demo_mapped\<lparr>mm_live := False\<rparr>) 0 1 = Inl (Panic ''unexpected fault address'')"
    by (rule mm_Mmap_failed_remap_stale [OF h])
  show ?thesis using h c by (intro conjI) blast+
qed

end
