(* ===== verification/TraceMmap.thy ===== *)
theory TraceMmap
  imports TraceFile MmapFile
begin

text \<open>
  \<open>extend\<close> and \<open>append\<close> of the tracedb file helper (\<open>part_000\<close>, lines
  42--68) in full: after truncating or writing, a file whose
  \<open>FileManager\<close> is a memory-mapped \<open>OSFile\<close> (\<open>Type() == "MemoryMap"\<close>,
  the flag \<open>tf_memoryMap\<close>) is remapped to its new size, and the error of
  \<open>Mmap\<close> is returned beside the offset.  The mapped file of \<open>MmapFile\<close>
  sees the same bytes as the helper: the operating system shares them.  The
  outcomes of \<open>munmap\<close> and \<open>mmap\<close> are inputs.
\<close>

definition tfm_extend :: "go_error option \<Rightarrow> go_error option \<Rightarrow> tfile \<Rightarrow> mmfile \<Rightarrow> u32
                          \<Rightarrow> (i64 \<times> go_error option) \<times> tfile \<times> mmfile" where
  "tfm_extend munmapErr mmapErr f m sz =
     (case tf_extend f sz of
        (Inl e, f1) \<Rightarrow> ((0, Some e), f1, m)
      | (Inr off, f1) \<Rightarrow>
          if tf_memoryMap f1
          then (case mm_Mmap munmapErr mmapErr (m\<lparr>mm_file := tf_data f1\<rparr>) (tf_size f1) of
                  (err, m1) \<Rightarrow> ((off, err), f1, m1))
          else ((off, None), f1, m\<lparr>mm_file := tf_data f1\<rparr>))"

definition tfm_append :: "go_error option \<Rightarrow> go_error option \<Rightarrow> tfile \<Rightarrow> mmfile \<Rightarrow> byte list
                          \<Rightarrow> (i64 \<times> go_error option) \<times> tfile \<times> mmfile" where
  "tfm_append munmapErr mmapErr f m data =
     (case tf_append f data of
        (Inl e, f1) \<Rightarrow> ((0, Some e), f1, m)
      | (Inr off, f1) \<Rightarrow>
          if tf_memoryMap f1
          then (case mm_Mmap munmapErr mmapErr (m\<lparr>mm_file := tf_data f1\<rparr>) (tf_size f1) of
                  (err, m1) \<Rightarrow> ((off, err), f1, m1))
          else ((off, None), f1, m\<lparr>mm_file := tf_data f1\<rparr>))"

text \<open>A memory-mapped tracedb file and its mapping agree: the same bytes, a live region of \<open>mm_inv\<close>.\<close>

definition tfm_inv :: "tfile \<Rightarrow> mmfile \<Rightarrow> bool" where
  "tfm_inv f m = (tf_inv f \<and> tf_data f = mm_file m \<and> mm_inv m \<and> mm_live m)"

text \<open>
  A memory-mapped file for the examples: empty, and mapped with the 1 GiB of the
  first \<open>Mmap\<close>.
\<close>

definition demo_tfm :: tfile where
  "demo_tfm = tf_empty\<lparr>tf_memoryMap := True\<rparr>"

subsection \<open>Extending a memory-mapped file\<close>

lemma tfm_extend_grows:
  assumes "tfm_inv f m" "tf_memoryMap f" "length (tf_data f) + unat sz < 2^63"
  shows "tfm_extend ue me f m sz
           = ((tf_size f, fst (mm_Mmap ue me (m\<lparr>mm_file := tf_data f @ replicate (unat sz) 0\<rparr>) (tf_size f + ucast sz))),
              f\<lparr>tf_data := tf_data f @ replicate (unat sz) 0, tf_size := tf_size f + ucast sz\<rparr>,
              snd (mm_Mmap ue me (m\<lparr>mm_file := tf_data f @ replicate (unat sz) 0\<rparr>) (tf_size f + ucast sz)))
         \<and> sint (tf_size f + ucast sz) = int (length (tf_data f) + unat sz)"
proof -
  have i: "tf_inv f" using assms(1) by (simp add: tfm_inv_def)
  note e = tf_extend_spec [OF i assms(3)]
  have e1: "tf_extend f sz = (Inr (tf_size f), f\<lparr>tf_data := tf_data f @ replicate (unat sz) 0, tf_size := tf_size f + ucast sz\<rparr>)"
    using e by (rule conjunct1)
  have "tf_inv (snd (tf_extend f sz))" using e by (rule conjunct2)
  then have s: "sint (tf_size f + ucast sz) = int (length (tf_data f) + unat sz)"
    unfolding e1 by (simp add: tf_inv_def)
  show ?thesis using e1 assms(2) s by (simp add: tfm_extend_def split: prod.splits)
qed

theorem tfm_extend_covers:
  assumes "tfm_inv f m" "tf_memoryMap f" "length (tf_data f) + unat sz < 2^63" "0 < length (tf_data f) + unat sz"
    and "sint (mm_mmapSize m) < 2^62" "int (length (tf_data f) + unat sz) \<le> 2 * sint (mm_mmapSize m)"
  shows "\<exists>f' m'. tfm_extend None None f m sz = ((tf_size f, None), f', m')
            \<and> tfm_inv f' m' \<and> mm_Slice m' 0 (tf_size f') = Inr (tf_data f')"
proof -
  let ?d = "tf_data f @ replicate (unat sz) 0" and ?n = "tf_size f + ucast sz" and ?M = "mm_mmapSize m"
  let ?f' = "f\<lparr>tf_data := ?d, tf_size := ?n\<rparr>"
  note g = tfm_extend_grows [OF assms(1-3), of None None]
  have sn: "sint ?n = int (length ?d)" using g by simp
  have inv: "tf_inv f" "tf_data f = mm_file m" "mm_data m = Some (nat (sint ?M))" "0 < sint ?M" "mm_live m"
    using assms(1) by (auto simp: tfm_inv_def mm_inv_def)
  have ti: "tf_inv ?f'" using sn by (simp add: tf_inv_def)
  show ?thesis
  proof (cases "sint ?n \<le> sint ?M")
    case True
    let ?m' = "m\<lparr>mm_file := ?d\<rparr>"
    have "0 < length ?d" using assms(4) by simp
    then have "sint ?n \<noteq> 0" using sn by linarith
    then have "?n \<noteq> 0" by auto
    then have mm: "mm_Mmap None None ?m' ?n = (None, ?m')" using True by (simp add: mm_Mmap_def word_sle_eq)
    have "int (length ?d) \<le> sint ?M" using sn True by linarith
    then have le: "length ?d \<le> nat (sint ?M)" by (metis nat_int nat_mono)
    have "mm_Slice ?m' 0 ?n = Inr ?d"
      using mm_Slice_prefix [of ?m' "nat (sint ?M)" ?n] inv sn le assms(4) by simp
    moreover have "tfm_inv ?f' ?m'" using ti inv assms(1) by (simp add: tfm_inv_def mm_inv_def)
    ultimately show ?thesis using g mm by auto
  next
    case False
    let ?m' = "m\<lparr>mm_file := ?d\<rparr>"
    have ln: "length ?d = nat (sint ?n)" using sn by (metis nat_int)
    have c: "mm_Slice (snd (mm_Mmap None None ?m' ?n)) 0 ?n = Inr ?d"
      using mm_Mmap_covers [of ?m' ?M ?n] inv False sn ln assms(5,6) by simp
    have "mm_inv (snd (mm_Mmap None None ?m' ?n))"
      using mm_Mmap_inv [where f = ?m' and ue = None and me = None and fileSize = ?n] inv sn assms(5) by (simp add: mm_inv_def)
    moreover have "mm_live (snd (mm_Mmap None None ?m' ?n)) \<and> mm_file (snd (mm_Mmap None None ?m' ?n)) = ?d
                   \<and> fst (mm_Mmap None None ?m' ?n) = None"
      using mm_Mmap_remaps [of ?m' ?M ?n] inv False sn assms(5) by simp
    ultimately show ?thesis using g c ti by (auto simp: tfm_inv_def)
  qed
qed

text \<open>C38: Extending a memory-mapped tracedb file whose new size is more than twice its mapped region returns the old size and no error, but OSFile.Mmap doubles the region only once, so the region is shorter than the file and a Slice of the whole file panics with slice bounds out of range.\<close>

theorem tfm_extend_maps_short:
  assumes "tfm_inv f m" "tf_memoryMap f" "length (tf_data f) + unat sz < 2^63"
    and "sint (mm_mmapSize m) < 2^62" "2 * sint (mm_mmapSize m) < int (length (tf_data f) + unat sz)"
  shows "fst (tfm_extend None None f m sz) = (tf_size f, None)
         \<and> mm_Slice (snd (snd (tfm_extend None None f m sz))) 0 (tf_size (fst (snd (tfm_extend None None f m sz))))
             = Inl (Panic ''slice bounds out of range'')"
proof -
  let ?d = "tf_data f @ replicate (unat sz) 0" and ?n = "tf_size f + ucast sz" and ?M = "mm_mmapSize m"
  let ?m' = "m\<lparr>mm_file := ?d\<rparr>"
  note g = tfm_extend_grows [OF assms(1-3), of None None]
  have inv: "0 < sint ?M" using assms(1) by (auto simp: tfm_inv_def mm_inv_def)
  have r: "mm_Mmap None None ?m' ?n = (None, ?m'\<lparr>mm_live := False, mm_data := Some (nat (2 * sint ?M)), mm_mmapSize := ?M * 2, mm_live := True\<rparr>)"
    using mm_Mmap_remaps [of ?m' ?M ?n] inv g assms(4,5) by simp
  show ?thesis using g r inv assms(5) by (simp add: mm_Slice_def)
qed

subsection \<open>The lemmas on a mapped file\<close>

theorem tfm_extend_maps_short_witness:
  "tfm_inv demo_tfm demo_mapped \<and> tf_memoryMap demo_tfm
   \<and> length (tf_data demo_tfm) + unat (2147483649 :: u32) < 2^63
   \<and> sint (mm_mmapSize demo_mapped) < 2^62
   \<and> 2 * sint (mm_mmapSize demo_mapped) < int (length (tf_data demo_tfm) + unat (2147483649 :: u32))
   \<and> fst (tfm_extend None None demo_tfm demo_mapped 2147483649) = (tf_size demo_tfm, None)
   \<and> mm_Slice (snd (snd (tfm_extend None None demo_tfm demo_mapped 2147483649))) 0
       (tf_size (fst (snd (tfm_extend None None demo_tfm demo_mapped 2147483649))))
       = Inl (Panic ''slice bounds out of range'')"
proof -
  have h: "tfm_inv demo_tfm demo_mapped" "tf_memoryMap demo_tfm"
    "length (tf_data demo_tfm) + unat (2147483649 :: u32) < 2^63"
    "sint (mm_mmapSize demo_mapped) < 2^62"
    "2 * sint (mm_mmapSize demo_mapped) < int (length (tf_data demo_tfm) + unat (2147483649 :: u32))"
    by (simp_all add: demo_tfm_def demo_mapped_def tf_empty_def tfm_inv_def tf_inv_def mm_inv_def)
  show ?thesis by (intro conjI h tfm_extend_maps_short [OF h])
qed

end
