(* ===== verification/WinLock.thy ===== *)
theory WinLock
  imports Prelude
begin

text \<open>
  The lock file of package \<open>fs\<close> on Windows (\<open>src/fs/file_windows.go\<close>):
  \<open>newLockFile\<close> creates the file and takes an exclusive \<open>LockFileEx\<close> lock
  on it; \<open>Unlock\<close> removes the file and closes the handle.  The operating
  system is the record \<open>wos\<close>: the open handles and the existing files.  The
  outcomes of \<open>CreateFile\<close> (a handle or an error) and of the
  \<open>LockFileEx\<close> system call (its \<open>r1\<close> and its \<open>Errno\<close>) are inputs.
  \<open>syscall.Close\<close> of a handle that is not open, and \<open>os.Remove\<close> of a file
  that does not exist, fail.  A \<open>defer\<close> that closes the handle when
  \<open>err\<close> is set runs on every return after \<open>CreateFile\<close>.
\<close>

record wos =
  wo_handles :: "nat list"
  wo_files :: "string list"

record windowsFileLock =
  wl_fd :: nat
  wl_name :: string

definition ERROR_FILE_EXISTS :: nat where
  "ERROR_FILE_EXISTS = 80"

definition errorLockViolation :: nat where
  "errorLockViolation = 33"

definition os_ErrExist :: go_error where
  "os_ErrExist = GoErr ''file already exists''"

definition os_remove :: "string \<Rightarrow> wos \<Rightarrow> go_error option \<times> wos" where
  "os_remove name s =
     (if name \<in> set (wo_files s) then (None, s\<lparr>wo_files := removeAll name (wo_files s)\<rparr>)
      else (Some (GoErr ''The system cannot find the file specified.''), s))"

definition sys_close :: "nat \<Rightarrow> wos \<Rightarrow> go_error option \<times> wos" where
  "sys_close fd s =
     (if fd \<in> set (wo_handles s) then (None, s\<lparr>wo_handles := remove1 fd (wo_handles s)\<rparr>)
      else (Some (GoErr ''The handle is invalid.''), s))"

definition wl_Unlock :: "windowsFileLock \<Rightarrow> wos \<Rightarrow> go_error option \<times> wos" where
  "wl_Unlock fl s =
     (case os_remove (wl_name fl) s of
        (Some err, s1) \<Rightarrow> (Some err, s1)
      | (None, s1) \<Rightarrow> sys_close (wl_fd fl) s1)"

text \<open>\<open>lockFile\<close>: only a zero \<open>r1\<close> with one of the two lock errors is an error.\<close>

definition lockFile :: "nat \<Rightarrow> nat \<Rightarrow> go_error option" where
  "lockFile r1 errno =
     (if r1 = 0 \<and> (errno = ERROR_FILE_EXISTS \<or> errno = errorLockViolation) then Some os_ErrExist else None)"

text \<open>
  \<open>newLockFile\<close>: a name with a NUL character fails its UTF-16 conversion;
  every error of \<open>CreateFile\<close> is reported as \<open>os.ErrExist\<close>; the file is
  created (\<open>CREATE_ALWAYS\<close>) with a new handle, which the deferred close
  releases when locking fails.
\<close>

definition newLockFile :: "string \<Rightarrow> go_error + nat \<Rightarrow> nat \<Rightarrow> nat \<Rightarrow> wos \<Rightarrow> (go_error + windowsFileLock) \<times> wos" where
  "newLockFile name created r1 errno s =
     (if CHR 0x00 \<in> set name then (Inl (GoErr ''invalid argument''), s)
      else case created of
        Inl _ \<Rightarrow> (Inl os_ErrExist, s)
      | Inr fd \<Rightarrow>
          let s1 = s\<lparr>wo_handles := fd # wo_handles s,
                     wo_files := (if name \<in> set (wo_files s) then wo_files s else name # wo_files s)\<rparr>
          in case lockFile r1 errno of
               Some err \<Rightarrow> (Inl err, snd (sys_close fd s1))
             | None \<Rightarrow> (Inr \<lparr>wl_fd = fd, wl_name = name\<rparr>, s1))"

text \<open>An operating system with no open handle and no file, for the examples.\<close>

definition demo_wos :: wos where
  "demo_wos = \<lparr>wo_handles = [], wo_files = []\<rparr>"

subsection \<open>Taking and releasing the lock\<close>

text \<open>C40: When LockFileEx fails (r1 = 0) with any error other than ERROR_FILE_EXISTS or a lock violation, lockFile returns nil and newLockFile returns a lock that was never taken.\<close>

theorem newLockFile_failed_lock_succeeds:
  assumes "CHR 0x00 \<notin> set name" "r1 = 0" "errno \<noteq> ERROR_FILE_EXISTS" "errno \<noteq> errorLockViolation"
  shows "fst (newLockFile name (Inr fd) r1 errno s) = Inr \<lparr>wl_fd = fd, wl_name = name\<rparr>"
  using assms by (simp add: newLockFile_def lockFile_def Let_def)

theorem newLockFile_error_closes:
  "fst (newLockFile name created r1 errno s) = Inl e \<Longrightarrow> wo_handles (snd (newLockFile name created r1 errno s)) = wo_handles s"
  by (auto simp: newLockFile_def sys_close_def Let_def split: sum.splits option.splits if_splits)

theorem newLockFile_Unlock_roundtrip:
  assumes "newLockFile name created r1 errno s = (Inr fl, s1)" "name \<notin> set (wo_files s)" "wl_fd fl \<notin> set (wo_handles s)"
  shows "wl_Unlock fl s1 = (None, s)"
  using assms by (auto simp: newLockFile_def wl_Unlock_def os_remove_def sys_close_def Let_def
                       split: sum.splits option.splits if_splits)

lemma newLockFile_create_error: "CHR 0x00 \<notin> set name \<Longrightarrow> fst (newLockFile name (Inl err) r1 errno s) = Inl os_ErrExist"
  by (simp add: newLockFile_def)

subsection \<open>The lemmas on a fresh system\<close>

theorem newLockFile_failed_lock_succeeds_witness:
  "CHR 0x00 \<notin> set ''LOCK'' \<and> (0::nat) = 0 \<and> (5::nat) \<noteq> ERROR_FILE_EXISTS \<and> (5::nat) \<noteq> errorLockViolation
   \<and> fst (newLockFile ''LOCK'' (Inr 7) 0 5 demo_wos) = Inr \<lparr>wl_fd = 7, wl_name = ''LOCK''\<rparr>"
proof -
  have h: "CHR 0x00 \<notin> set ''LOCK''" "(0::nat) = 0" "(5::nat) \<noteq> ERROR_FILE_EXISTS" "(5::nat) \<noteq> errorLockViolation"
    by (simp_all add: ERROR_FILE_EXISTS_def errorLockViolation_def)
  show ?thesis using newLockFile_failed_lock_succeeds [OF h] h by simp
qed

theorem newLockFile_Unlock_roundtrip_witness:
  "newLockFile ''LOCK'' (Inr 7) 1 0 demo_wos = (Inr \<lparr>wl_fd = 7, wl_name = ''LOCK''\<rparr>, \<lparr>wo_handles = [7], wo_files = [''LOCK'']\<rparr>)
   \<and> ''LOCK'' \<notin> set (wo_files demo_wos) \<and> wl_fd \<lparr>wl_fd = 7, wl_name = ''LOCK''\<rparr> \<notin> set (wo_handles demo_wos)
   \<and> wl_Unlock \<lparr>wl_fd = 7, wl_name = ''LOCK''\<rparr> \<lparr>wo_handles = [7], wo_files = [''LOCK'']\<rparr> = (None, demo_wos)"
proof -
  have h: "newLockFile ''LOCK'' (Inr 7) 1 0 demo_wos = (Inr \<lparr>wl_fd = 7, wl_name = ''LOCK''\<rparr>, \<lparr>wo_handles = [7], wo_files = [''LOCK'']\<rparr>)"
     "''LOCK'' \<notin> set (wo_files demo_wos)" "wl_fd \<lparr>wl_fd = 7, wl_name = ''LOCK''\<rparr> \<notin> set (wo_handles demo_wos)"
    by (simp_all add: newLockFile_def lockFile_def demo_wos_def)
  show ?thesis using newLockFile_Unlock_roundtrip [OF h] h by simp
qed

end
