(* ===== verification/EntryLayout.thy ===== *)
theory EntryLayout
  imports Prelude
begin

text \<open>
  The tail of \<open>DB.setEntry\<close> (\<open>db_internal.go\<close>, lines 336--360) lays out
  the cache record of an entry in one buffer of \<open>mLen\<close> bytes:
  the marshalled entry header, the message ID prefix with its last byte
  replaced by the encryption bit, the raw topic (only for a topic new to the
  trie) and the value.  The parts it copies come from code that is not in the
  sources (the entry's \<open>MarshalBinary\<close>, \<open>message.ID\<close>, the topic parser,
  snappy and the cipher), so they are arguments, as are the constants
  \<open>entrySize\<close> and \<open>idSize\<close>.  Go's \<open>copy\<close> copies as many bytes as both
  slices hold; slicing past the end and indexing out of range panic.  Sizes are
  \<open>uint32\<close> and their sum wraps.
\<close>

text \<open>\<open>copy(dst, src)\<close>: the result is the new \<open>dst\<close>.\<close>

definition go_copy :: "byte list \<Rightarrow> byte list \<Rightarrow> byte list" where
  "go_copy dst src = take (length dst) (src @ drop (length src) dst)"

text \<open>\<open>copy(dst[off:], src)\<close>, which panics when \<open>off > len(dst)\<close>.\<close>

definition copy_at :: "byte list \<Rightarrow> nat \<Rightarrow> byte list \<Rightarrow> go_error + byte list" where
  "copy_at dst off src =
     (if length dst < off then Inl (Panic ''slice bounds out of range'')
      else Inr (take off dst @ go_copy (drop off dst) src))"

definition set_byte :: "byte list \<Rightarrow> nat \<Rightarrow> byte \<Rightarrow> go_error + byte list" where
  "set_byte xs i b = (if i < length xs then Inr (xs[i := b]) else Inl (Panic ''index out of range''))"

definition cache_entry :: "u32 \<Rightarrow> u32 \<Rightarrow> byte list \<Rightarrow> byte list \<Rightarrow> byte \<Rightarrow> u16 \<Rightarrow> byte list \<Rightarrow> byte list
                           \<Rightarrow> go_error + (u32 \<times> byte list)" where
  "cache_entry entrySize idSize entryData idPrefix eBit topicSize rawTopic val =
     (let valueSize = (word_of_nat (length val) :: u32);
          mLen = entrySize + idSize + ucast topicSize + valueSize;
          ce = go_copy (replicate (unat mLen) 0) entryData
      in case copy_at ce (unat entrySize) idPrefix of
           Inl e \<Rightarrow> Inl e
         | Inr ce \<Rightarrow>
             (case set_byte ce (unat (entrySize + idSize - 1)) eBit of
                Inl e \<Rightarrow> Inl e
              | Inr ce \<Rightarrow>
                  (case (if topicSize \<noteq> 0 then copy_at ce (unat (entrySize + idSize)) rawTopic else Inr ce) of
                     Inl e \<Rightarrow> Inl e
                   | Inr ce \<Rightarrow>
                       (case copy_at ce (unat (entrySize + idSize + ucast topicSize)) val of
                          Inl e \<Rightarrow> Inl e
                        | Inr ce \<Rightarrow> Inr (valueSize, ce)))))"

subsection \<open>The layout of a cache record\<close>

lemma go_copy_prefix: "length src \<le> length dst \<Longrightarrow> go_copy dst src = src @ drop (length src) dst"
  by (simp add: go_copy_def)

lemma copy_at_ok:
  "off + length src \<le> length dst \<Longrightarrow> copy_at dst off src = Inr (take off dst @ src @ drop (off + length src) dst)"
  by (simp add: copy_at_def go_copy_prefix add.commute)

theorem cache_entry_layout:
  assumes l: "length entryData = unat entrySize" "length idPrefix = unat idSize" "0 < unat idSize"
      "length rawTopic \<le> unat topicSize"
    and b: "unat entrySize + unat idSize + unat topicSize + length val < 2^32"
  shows "cache_entry entrySize idSize entryData idPrefix eBit topicSize rawTopic val
       = Inr (word_of_nat (length val),
              entryData @ butlast idPrefix @ [eBit] @ rawTopic @ replicate (unat topicSize - length rawTopic) 0 @ val)"
proof -
  let ?E = "unat entrySize" and ?I = "unat idSize" and ?T = "unat topicSize" and ?V = "length val"
  have v: "unat (word_of_nat ?V :: u32) = ?V" using b by (simp add: unat_u32_of_nat)
  have t: "unat (ucast topicSize :: u32) = ?T" by (rule unat_ucast_u16_u32)
  have ei: "unat (entrySize + idSize) = ?E + ?I" using b by (intro unat_add_u32) simp
  have eit: "unat (entrySize + idSize + ucast topicSize) = ?E + ?I + ?T" using b ei t by (subst unat_add_u32) simp_all
  have m: "unat (entrySize + idSize + ucast topicSize + word_of_nat ?V) = ?E + ?I + ?T + ?V"
    using b eit v by (subst unat_add_u32) simp_all
  have e1: "unat (entrySize + idSize - 1) = ?E + ?I - 1"
    using ei l(3) by (simp add: unat_sub_if' word_le_nat_alt)
  let ?z = "replicate (?E + ?I + ?T + ?V) (0::byte)"
  have c0: "go_copy ?z entryData = entryData @ replicate (?I + ?T + ?V) 0"
    using l(1) by (simp add: go_copy_prefix)
  have c1: "copy_at (entryData @ replicate (?I + ?T + ?V) 0) ?E idPrefix
      = Inr (entryData @ idPrefix @ replicate (?T + ?V) 0)"
    using l(1,2) by (simp add: copy_at_ok)
  have c2: "set_byte (entryData @ idPrefix @ replicate (?T + ?V) 0) (?E + ?I - 1) eBit
      = Inr (entryData @ butlast idPrefix @ [eBit] @ replicate (?T + ?V) 0)"
  proof -
    have "idPrefix \<noteq> []" using l(2,3) by auto
    then have "idPrefix[?I - 1 := eBit] = butlast idPrefix @ [eBit]" using l(2) butlast_update by metis
    moreover have "?E + ?I - 1 < length (entryData @ idPrefix @ replicate (?T + ?V) 0)" using l by simp
    ultimately show ?thesis using l(1,2,3)
      by (simp add: set_byte_def list_update_append)
  qed
  have c3: "(if topicSize \<noteq> 0 then copy_at (entryData @ butlast idPrefix @ [eBit] @ replicate (?T + ?V) 0) (?E + ?I) rawTopic
            else Inr (entryData @ butlast idPrefix @ [eBit] @ replicate (?T + ?V) 0))
      = Inr (entryData @ butlast idPrefix @ [eBit] @ rawTopic @ replicate (?T - length rawTopic) 0 @ replicate ?V 0)"
    using l by (auto simp: copy_at_ok replicate_add [symmetric])
  have c4: "copy_at (entryData @ butlast idPrefix @ [eBit] @ rawTopic @ replicate (?T - length rawTopic) 0 @ replicate ?V 0)
        (?E + ?I + ?T) val
      = Inr (entryData @ butlast idPrefix @ [eBit] @ rawTopic @ replicate (?T - length rawTopic) 0 @ val)"
    using l by (simp add: copy_at_ok)
  show ?thesis
    by (simp only: cache_entry_def Let_def m ei eit e1 c0 c1 sum.case c2 c3 c4)
qed

theorem cache_entry_layout_witness:
  "length [1, 2, 3::byte] = unat (3::u32) \<and> length [4, 5::byte] = unat (2::u32) \<and> 0 < unat (2::u32)
   \<and> length ([]::byte list) \<le> unat (2::u16)
   \<and> unat (3::u32) + unat (2::u32) + unat (2::u16) + length [9::byte] < 2^32
   \<and> cache_entry 3 2 [1, 2, 3] [4, 5] 1 2 [] [9] = Inr (1, [1, 2, 3, 4, 1, 0, 0, 9])"
proof -
  have h: "length [1, 2, 3::byte] = unat (3::u32)" "length [4, 5::byte] = unat (2::u32)" "0 < unat (2::u32)"
    "length ([]::byte list) \<le> unat (2::u16)" "unat (3::u32) + unat (2::u32) + unat (2::u16) + length [9::byte] < 2^32"
    by simp_all
  have u: "unat (2::u16) = 2" by simp
  have "cache_entry 3 2 [1, 2, 3] [4, 5] 1 2 [] [9]
      = Inr (word_of_nat (length [9::byte]), [1, 2, 3] @ butlast [4, 5] @ [1] @ [] @ replicate (2 - length ([]::byte list)) 0 @ [9])"
    using cache_entry_layout [OF h, of 1] unfolding u .
  then show ?thesis using h by (simp add: numeral_2_eq_2)
qed

end
