(* ===== verification/TimeLock.thy ===== *)
theory TimeLock
  imports TimeMark
begin

text \<open>
  The time lock of the memdb (\<open>memdb/timelock.go\<close>, lines 25--48) and the two
  methods that take it, \<open>DB.delete\<close> (lines 283--306, write lock) and one
  round of \<open>DB.tinyBatchLoop\<close> (lines 515--538, read lock), as threads that
  interleave.  The time lock is an array of \<open>nLocks\<close> read-write mutexes;
  \<open>getTimeLock\<close> picks one through a consistent hash, which is not in the
  sources and is the argument \<open>fb\<close>.  A \<open>sync.RWMutex\<close> is a writer flag and
  a reader count; \<open>Lock\<close> and \<open>RLock\<close> wait (the step is not enabled) while
  they cannot proceed.  Go's mutex also makes new readers wait behind a waiting
  writer; the model lets them proceed, so it has more interleavings than Go and
  its safety lemmas hold a fortiori.  The state holds \<open>db.mu\<close>, the stripes,
  the current tiny batch (its TimeID and its count), the block cache as the
  records each block received, and the batches handed to the batch pool.  Each
  thread is a program counter; \<open>tl_step\<close> runs one statement of one thread.
  The fresh TimeID of \<open>newTinyBatch\<close> comes from the Time-Mark and is an input.
\<close>

subsection \<open>Read-write mutexes and the time lock\<close>

record rwmutex =
  rw_readers :: nat
  rw_writer :: bool

definition rw_free :: rwmutex where
  "rw_free = \<lparr>rw_readers = 0, rw_writer = False\<rparr>"

definition rw_lock :: "rwmutex \<Rightarrow> rwmutex option" where
  "rw_lock m = (if rw_writer m \<or> rw_readers m \<noteq> 0 then None else Some (m\<lparr>rw_writer := True\<rparr>))"

definition rw_unlock :: "rwmutex \<Rightarrow> rwmutex" where
  "rw_unlock m = m\<lparr>rw_writer := False\<rparr>"

definition rw_rlock :: "rwmutex \<Rightarrow> rwmutex option" where
  "rw_rlock m = (if rw_writer m then None else Some (m\<lparr>rw_readers := Suc (rw_readers m)\<rparr>))"

definition rw_runlock :: "rwmutex \<Rightarrow> rwmutex" where
  "rw_runlock m = m\<lparr>rw_readers := rw_readers m - 1\<rparr>"

text \<open>\<open>newTimeLock\<close>: \<open>nLocks\<close> fresh mutexes.\<close>

definition newTimeLock :: "nat \<Rightarrow> rwmutex list" where
  "newTimeLock nLocks = replicate nLocks rw_free"

text \<open>
  \<open>getTimeLock\<close>: the index of the stripe of a TimeID, read as \<open>uint64\<close>;
  an index out of the array panics.
\<close>

definition getTimeLock :: "(u64 \<Rightarrow> nat) \<Rightarrow> rwmutex list \<Rightarrow> timeID \<Rightarrow> go_error + nat" where
  "getTimeLock fb internal timeID =
     (let i = fb (ucast timeID) in
      if i < length internal then Inr i else Inl (Panic ''index out of range''))"

subsection \<open>Threads\<close>

text \<open>
  The program counter of a thread: a delete of a key (\<open>D\<dots>\<close>) or the tiny-batch
  loop (\<open>L\<dots>\<close>); the arguments are the locals the thread has read so far.
\<close>

datatype pc =
    DStart u64
  | DHasMu u64
  | DRead u64 timeID nat
  | DLocked u64 timeID nat
  | DPut u64 timeID nat
  | DCount nat
  | DUnlock nat
  | DDone
  | LIdle
  | LHasMu
  | LRead timeID nat
  | LLocked nat
  | LBody nat
  | LSwapped nat
  | Panicked

record tbatch =
  lb_timeID :: timeID
  lb_count :: nat

record tls =
  tl_mu :: rwmutex
  tl_locks :: "rwmutex list"
  tl_batch :: tbatch
  tl_blocks :: "timeID \<rightharpoonup> (u64 \<times> timeID) list"
  tl_pool :: "tbatch list"
  tl_pcs :: "pc list"

definition tl_init :: "nat \<Rightarrow> timeID \<Rightarrow> pc list \<Rightarrow> tls" where
  "tl_init nLocks tid0 pcs =
     \<lparr>tl_mu = rw_free, tl_locks = newTimeLock nLocks, tl_batch = \<lparr>lb_timeID = tid0, lb_count = 0\<rparr>,
      tl_blocks = Map.empty, tl_pool = [], tl_pcs = pcs\<rparr>"

definition set_pc :: "nat \<Rightarrow> pc \<Rightarrow> tls \<Rightarrow> tls" where
  "set_pc j q s = s\<lparr>tl_pcs := (tl_pcs s)[j := q]\<rparr>"

definition set_stripe :: "nat \<Rightarrow> rwmutex \<Rightarrow> tls \<Rightarrow> tls" where
  "set_stripe i m s = s\<lparr>tl_locks := (tl_locks s)[i := m]\<rparr>"

text \<open>
  One statement of \<open>DB.delete(key)\<close> run by thread \<open>j\<close> at program counter
  \<open>p\<close>; \<open>None\<close> when it has returned or waits for a lock: \<open>db.mu.Lock()\<close>;
  read the tiny batch's TimeID and pick its stripe; lock the stripe; find or
  create the block and \<open>db.mu.Unlock()\<close>; \<open>block.put\<close> of the delete
  marker (the key, with the TimeID as payload);
  \<open>db.internal.tinyBatch.incount()\<close> on the tiny batch current at that
  moment; the deferred unlock of the stripe.
\<close>

definition delete_step :: "(u64 \<Rightarrow> nat) \<Rightarrow> nat \<Rightarrow> pc \<Rightarrow> tls \<Rightarrow> tls option" where
  "delete_step fb j p s =
     (case p of
        DStart k \<Rightarrow> map_option (\<lambda>m. set_pc j (DHasMu k) (s\<lparr>tl_mu := m\<rparr>)) (rw_lock (tl_mu s))
      | DHasMu k \<Rightarrow>
          (let tid = lb_timeID (tl_batch s) in
           case getTimeLock fb (tl_locks s) tid of
             Inl _ \<Rightarrow> Some (set_pc j Panicked s)
           | Inr i \<Rightarrow> Some (set_pc j (DRead k tid i) s))
      | DRead k tid i \<Rightarrow>
          map_option (\<lambda>m. set_pc j (DLocked k tid i) (set_stripe i m s)) (rw_lock (tl_locks s ! i))
      | DLocked k tid i \<Rightarrow>
          Some (set_pc j (DPut k tid i)
                  (s\<lparr>tl_blocks := (if tl_blocks s tid = None then (tl_blocks s)(tid \<mapsto> []) else tl_blocks s),
                     tl_mu := rw_unlock (tl_mu s)\<rparr>))
      | DPut k tid i \<Rightarrow>
          Some (set_pc j (DCount i)
                  (s\<lparr>tl_blocks := (tl_blocks s)(tid \<mapsto> the (tl_blocks s tid) @ [(k, tid)])\<rparr>))
      | DCount i \<Rightarrow>
          Some (set_pc j (DUnlock i)
                  (s\<lparr>tl_batch := (tl_batch s)\<lparr>lb_count := Suc (lb_count (tl_batch s))\<rparr>\<rparr>))
      | DUnlock i \<Rightarrow> Some (set_pc j DDone (set_stripe i (rw_unlock (tl_locks s ! i)) s))
      | _ \<Rightarrow> None)"

text \<open>
  One statement of a round of \<open>DB.tinyBatchLoop\<close>: \<open>db.mu.RLock()\<close>; read
  the TimeID and pick its stripe; read-lock the stripe; \<open>db.mu.RUnlock()\<close>;
  hand a non-empty tiny batch to the pool and start a fresh one with TimeID
  \<open>fresh\<close>; read-unlock the stripe.
\<close>

definition loop_step :: "(u64 \<Rightarrow> nat) \<Rightarrow> timeID \<Rightarrow> nat \<Rightarrow> pc \<Rightarrow> tls \<Rightarrow> tls option" where
  "loop_step fb fresh j p s =
     (case p of
        LIdle \<Rightarrow> map_option (\<lambda>m. set_pc j LHasMu (s\<lparr>tl_mu := m\<rparr>)) (rw_rlock (tl_mu s))
      | LHasMu \<Rightarrow>
          (let tid = lb_timeID (tl_batch s) in
           case getTimeLock fb (tl_locks s) tid of
             Inl _ \<Rightarrow> Some (set_pc j Panicked s)
           | Inr i \<Rightarrow> Some (set_pc j (LRead tid i) s))
      | LRead tid i \<Rightarrow>
          map_option (\<lambda>m. set_pc j (LLocked i) (set_stripe i m s)) (rw_rlock (tl_locks s ! i))
      | LLocked i \<Rightarrow> Some (set_pc j (LBody i) (s\<lparr>tl_mu := rw_runlock (tl_mu s)\<rparr>))
      | LBody i \<Rightarrow>
          Some (set_pc j (LSwapped i)
                  (s\<lparr>tl_pool := (if lb_count (tl_batch s) \<noteq> 0 then tl_pool s @ [tl_batch s] else tl_pool s),
                     tl_batch := \<lparr>lb_timeID = fresh, lb_count = 0\<rparr>\<rparr>))
      | LSwapped i \<Rightarrow> Some (set_pc j LIdle (set_stripe i (rw_runlock (tl_locks s ! i)) s))
      | _ \<Rightarrow> None)"

text \<open>One statement of thread \<open>j\<close>, whichever of the two it runs.\<close>

fun is_delete :: "pc \<Rightarrow> bool" where
  "is_delete (DStart _) = True" | "is_delete (DHasMu _) = True" | "is_delete (DRead _ _ _) = True"
| "is_delete (DLocked _ _ _) = True" | "is_delete (DPut _ _ _) = True" | "is_delete (DCount _) = True"
| "is_delete (DUnlock _) = True" | "is_delete DDone = True" | "is_delete _ = False"

definition tl_step :: "(u64 \<Rightarrow> nat) \<Rightarrow> timeID \<Rightarrow> nat \<Rightarrow> tls \<Rightarrow> tls option" where
  "tl_step fb fresh j s =
     (if length (tl_pcs s) \<le> j then None
      else if is_delete (tl_pcs s ! j) then delete_step fb j (tl_pcs s ! j) s
      else loop_step fb fresh j (tl_pcs s ! j) s)"

text \<open>A schedule: the thread to run and the fresh TimeID, one pair per step.\<close>

fun tl_run :: "(u64 \<Rightarrow> nat) \<Rightarrow> (nat \<times> timeID) list \<Rightarrow> tls \<Rightarrow> tls option" where
  "tl_run fb [] s = Some s"
| "tl_run fb ((j, fresh) # sched) s = (case tl_step fb fresh j s of None \<Rightarrow> None | Some s' \<Rightarrow> tl_run fb sched s')"

inductive tl_reach :: "(u64 \<Rightarrow> nat) \<Rightarrow> tls \<Rightarrow> tls \<Rightarrow> bool" for fb s0 where
  tl_refl: "tl_reach fb s0 s0"
| tl_next: "tl_reach fb s0 s \<Longrightarrow> tl_step fb fresh j s = Some s' \<Longrightarrow> tl_reach fb s0 s'"


subsection \<open>The lock protocol\<close>

text \<open>
  Which locks a thread holds at a program counter: \<open>db.mu\<close> for writing or
  reading, and stripe \<open>i\<close> for writing or reading; \<open>pc_ok\<close> says that its
  stripe index is inside the array, \<open>tl_start\<close> that it holds nothing yet.
  \<open>rw_acct\<close> says that a mutex's state counts its holders, and \<open>tl_inv\<close>
  that this is so for \<open>db.mu\<close> and every stripe.
\<close>
fun mu_w :: "pc \<Rightarrow> bool" where
  "mu_w (DHasMu _) = True" | "mu_w (DRead _ _ _) = True" | "mu_w (DLocked _ _ _) = True" | "mu_w _ = False"

fun mu_r :: "pc \<Rightarrow> bool" where
  "mu_r LHasMu = True" | "mu_r (LRead _ _) = True" | "mu_r (LLocked _) = True" | "mu_r _ = False"

fun st_w :: "nat \<Rightarrow> pc \<Rightarrow> bool" where
  "st_w i (DLocked _ _ i') = (i' = i)" | "st_w i (DPut _ _ i') = (i' = i)"
| "st_w i (DCount i') = (i' = i)" | "st_w i (DUnlock i') = (i' = i)" | "st_w i _ = False"

fun st_r :: "nat \<Rightarrow> pc \<Rightarrow> bool" where
  "st_r i (LLocked i') = (i' = i)" | "st_r i (LBody i') = (i' = i)" | "st_r i (LSwapped i') = (i' = i)"
| "st_r i _ = False"

fun pc_ok :: "nat \<Rightarrow> pc \<Rightarrow> bool" where
  "pc_ok n (DRead _ _ i) = (i < n)" | "pc_ok n (DLocked _ _ i) = (i < n)" | "pc_ok n (DPut _ _ i) = (i < n)"
| "pc_ok n (DCount i) = (i < n)" | "pc_ok n (DUnlock i) = (i < n)" | "pc_ok n (LRead _ i) = (i < n)"
| "pc_ok n (LLocked i) = (i < n)" | "pc_ok n (LBody i) = (i < n)" | "pc_ok n (LSwapped i) = (i < n)"
| "pc_ok n _ = True"

definition rw_acct :: "rwmutex \<Rightarrow> ('p \<Rightarrow> bool) \<Rightarrow> ('p \<Rightarrow> bool) \<Rightarrow> 'p list \<Rightarrow> bool" where
  "rw_acct m W R ps \<longleftrightarrow>
     length (filter W ps) = (if rw_writer m then 1 else 0) \<and> length (filter R ps) = rw_readers m
     \<and> (rw_writer m \<longrightarrow> rw_readers m = 0)"

definition tl_inv :: "tls \<Rightarrow> bool" where
  "tl_inv s \<longleftrightarrow>
     rw_acct (tl_mu s) mu_w mu_r (tl_pcs s)
     \<and> (\<forall>i < length (tl_locks s). rw_acct (tl_locks s ! i) (st_w i) (st_r i) (tl_pcs s))
     \<and> list_all (pc_ok (length (tl_locks s))) (tl_pcs s)"

fun tl_start :: "pc \<Rightarrow> bool" where
  "tl_start (DStart _) = True" | "tl_start LIdle = True" | "tl_start _ = False"

subsection \<open>Lock accounting is invariant\<close>
lemma length_filter_update:
  "j < length xs \<Longrightarrow>
   length (filter P (xs[j := y])) + (if P (xs ! j) then 1 else 0) = length (filter P xs) + (if P y then 1 else 0)"
proof (induction xs arbitrary: j)
  case Nil
  then show ?case by simp
next
  case (Cons x xs)
  then show ?case
  proof (cases j)
    case (Suc j')
    then show ?thesis using Cons.IH [of j'] Cons.prems by simp
  qed simp
qed

lemma rw_acct_keep:
  "rw_acct m W R ps \<Longrightarrow> j < length ps \<Longrightarrow> W (ps ! j) = W q \<Longrightarrow> R (ps ! j) = R q \<Longrightarrow> rw_acct m W R (ps[j := q])"
  using length_filter_update [of j ps W q] length_filter_update [of j ps R q]
  unfolding rw_acct_def by auto

lemma rw_acct_lock:
  "rw_acct m W R ps \<Longrightarrow> j < length ps \<Longrightarrow> rw_lock m = Some m' \<Longrightarrow> \<not> W (ps ! j) \<Longrightarrow> \<not> R (ps ! j)
   \<Longrightarrow> W q \<Longrightarrow> \<not> R q \<Longrightarrow> rw_acct m' W R (ps[j := q])"
  using length_filter_update [of j ps W q] length_filter_update [of j ps R q]
  unfolding rw_acct_def rw_lock_def by (auto split: if_splits)

lemma rw_acct_unlock:
  "rw_acct m W R ps \<Longrightarrow> j < length ps \<Longrightarrow> W (ps ! j) \<Longrightarrow> \<not> R (ps ! j)
   \<Longrightarrow> \<not> W q \<Longrightarrow> \<not> R q \<Longrightarrow> rw_acct (rw_unlock m) W R (ps[j := q])"
  using length_filter_update [of j ps W q] length_filter_update [of j ps R q]
  unfolding rw_acct_def rw_unlock_def by (auto split: if_splits)

lemma rw_acct_rlock:
  "rw_acct m W R ps \<Longrightarrow> j < length ps \<Longrightarrow> rw_rlock m = Some m' \<Longrightarrow> \<not> W (ps ! j) \<Longrightarrow> \<not> R (ps ! j)
   \<Longrightarrow> \<not> W q \<Longrightarrow> R q \<Longrightarrow> rw_acct m' W R (ps[j := q])"
  using length_filter_update [of j ps W q] length_filter_update [of j ps R q]
  unfolding rw_acct_def rw_rlock_def by (auto split: if_splits)

lemma rw_acct_runlock:
  "rw_acct m W R ps \<Longrightarrow> j < length ps \<Longrightarrow> R (ps ! j) \<Longrightarrow> \<not> W (ps ! j)
   \<Longrightarrow> \<not> W q \<Longrightarrow> \<not> R q \<Longrightarrow> rw_acct (rw_runlock m) W R (ps[j := q])"
  using length_filter_update [of j ps W q] length_filter_update [of j ps R q]
  unfolding rw_acct_def rw_runlock_def by (auto split: if_splits)

lemma tl_inv_fields [simp]:
  "tl_inv (s\<lparr>tl_blocks := b\<rparr>) = tl_inv s" "tl_inv (s\<lparr>tl_batch := t\<rparr>) = tl_inv s"
  "tl_inv (s\<lparr>tl_pool := pl\<rparr>) = tl_inv s"
  by (simp_all add: tl_inv_def)

lemma tl_inv_pc_ok: "tl_inv s \<Longrightarrow> j < length (tl_pcs s) \<Longrightarrow> pc_ok (length (tl_locks s)) (tl_pcs s ! j)"
  by (simp add: tl_inv_def list_all_length)

lemma list_all_update_pc: "list_all P xs \<Longrightarrow> P q \<Longrightarrow> list_all P (xs[j := q])"
  by (induction xs arbitrary: j) (auto split: nat.splits)

lemma tl_inv_mu_step:
  assumes "tl_inv s" "j < length (tl_pcs s)" "rw_acct m' mu_w mu_r ((tl_pcs s)[j := q])"
    "\<And>i. st_w i (tl_pcs s ! j) = st_w i q \<and> st_r i (tl_pcs s ! j) = st_r i q"
    "pc_ok (length (tl_locks s)) q"
  shows "tl_inv (set_pc j q (s\<lparr>tl_mu := m'\<rparr>))"
  using assms by (simp add: tl_inv_def set_pc_def rw_acct_keep list_all_update_pc)

lemma tl_inv_stripe_step:
  assumes "tl_inv s" "j < length (tl_pcs s)" "k < length (tl_locks s)"
    "mu_w (tl_pcs s ! j) = mu_w q" "mu_r (tl_pcs s ! j) = mu_r q"
    "\<And>i. i \<noteq> k \<Longrightarrow> st_w i (tl_pcs s ! j) = st_w i q \<and> st_r i (tl_pcs s ! j) = st_r i q"
    "rw_acct m' (st_w k) (st_r k) ((tl_pcs s)[j := q])" "pc_ok (length (tl_locks s)) q"
  shows "tl_inv (set_pc j q (set_stripe k m' s))"
  using assms by (auto simp: tl_inv_def set_pc_def set_stripe_def rw_acct_keep list_all_update_pc nth_list_update)

lemma tl_inv_keep_step:
  assumes "tl_inv s" "j < length (tl_pcs s)" "mu_w (tl_pcs s ! j) = mu_w q" "mu_r (tl_pcs s ! j) = mu_r q"
    "\<And>i. st_w i (tl_pcs s ! j) = st_w i q \<and> st_r i (tl_pcs s ! j) = st_r i q"
    "pc_ok (length (tl_locks s)) q"
  shows "tl_inv (set_pc j q s)"
proof -
  have "rw_acct (tl_mu s) mu_w mu_r ((tl_pcs s)[j := q])"
    using assms by (intro rw_acct_keep) (simp_all add: tl_inv_def)
  then show ?thesis using tl_inv_mu_step [of s j "tl_mu s" q] assms by simp
qed

lemma tl_step_inv:
  assumes inv: "tl_inv s" and fb: "\<forall>x. fb x < length (tl_locks s)"
    and st: "tl_step fb fresh j s = Some s'"
  shows "tl_inv s'"
proof -
  let ?ps = "tl_pcs s" and ?n = "length (tl_locks s)"
  have j: "j < length ?ps" using st by (simp add: tl_step_def delete_step_def loop_step_def split: if_splits)
  have ok: "pc_ok ?n (?ps ! j)" using tl_inv_pc_ok [OF inv j] .
  have mu: "rw_acct (tl_mu s) mu_w mu_r ?ps" using inv by (simp add: tl_inv_def)
  have sa: "\<And>i. i < ?n \<Longrightarrow> rw_acct (tl_locks s ! i) (st_w i) (st_r i) ?ps" using inv by (simp add: tl_inv_def)
  have gl: "getTimeLock fb (tl_locks s) t = Inr (fb (ucast t))" for t using fb by (simp add: getTimeLock_def)
  show ?thesis
  proof (cases "?ps ! j")
    case (DStart k)
    then obtain m where "rw_lock (tl_mu s) = Some m" "s' = set_pc j (DHasMu k) (s\<lparr>tl_mu := m\<rparr>)"
      using st j by (auto simp: tl_step_def delete_step_def loop_step_def)
    then show ?thesis using DStart inv j mu by (auto intro!: tl_inv_mu_step rw_acct_lock)
  next
    case (DHasMu k)
    then have "s' = set_pc j (DRead k (lb_timeID (tl_batch s)) (fb (ucast (lb_timeID (tl_batch s))))) s"
      using st j by (simp add: tl_step_def delete_step_def loop_step_def gl Let_def)
    then show ?thesis using DHasMu inv j mu fb by (auto intro!: tl_inv_keep_step)
  next
    case (DRead k tid i)
    then obtain m where "rw_lock (tl_locks s ! i) = Some m" "s' = set_pc j (DLocked k tid i) (set_stripe i m s)"
      using st j by (auto simp: tl_step_def delete_step_def loop_step_def)
    then show ?thesis using DRead inv j ok sa [of i] by (auto intro!: tl_inv_stripe_step rw_acct_lock)
  next
    case (DLocked k tid i)
    then obtain b where "s' = set_pc j (DPut k tid i) ((s\<lparr>tl_blocks := b\<rparr>)\<lparr>tl_mu := rw_unlock (tl_mu s)\<rparr>)"
      using st j by (auto simp: tl_step_def delete_step_def loop_step_def)
    then show ?thesis using DLocked inv j ok mu by (auto intro!: tl_inv_mu_step rw_acct_unlock)
  next
    case (DPut k tid i)
    then obtain b where "s' = set_pc j (DCount i) (s\<lparr>tl_blocks := b\<rparr>)"
      using st j by (auto simp: tl_step_def delete_step_def loop_step_def)
    then show ?thesis using DPut inv j ok mu by (auto intro!: tl_inv_keep_step)
  next
    case (DCount i)
    then obtain t where "s' = set_pc j (DUnlock i) (s\<lparr>tl_batch := t\<rparr>)"
      using st j by (auto simp: tl_step_def delete_step_def loop_step_def)
    then show ?thesis using DCount inv j ok mu by (auto intro!: tl_inv_keep_step)
  next
    case (DUnlock i)
    then have "s' = set_pc j DDone (set_stripe i (rw_unlock (tl_locks s ! i)) s)"
      using st j by (auto simp: tl_step_def delete_step_def loop_step_def)
    then show ?thesis using DUnlock inv j ok sa [of i] by (auto intro!: tl_inv_stripe_step rw_acct_unlock)
  next
    case LIdle
    then obtain m where "rw_rlock (tl_mu s) = Some m" "s' = set_pc j LHasMu (s\<lparr>tl_mu := m\<rparr>)"
      using st j by (auto simp: tl_step_def delete_step_def loop_step_def)
    then show ?thesis using LIdle inv j mu by (auto intro!: tl_inv_mu_step rw_acct_rlock)
  next
    case LHasMu
    then have "s' = set_pc j (LRead (lb_timeID (tl_batch s)) (fb (ucast (lb_timeID (tl_batch s))))) s"
      using st j by (simp add: tl_step_def delete_step_def loop_step_def gl Let_def)
    then show ?thesis using LHasMu inv j mu fb by (auto intro!: tl_inv_keep_step)
  next
    case (LRead tid i)
    then obtain m where "rw_rlock (tl_locks s ! i) = Some m" "s' = set_pc j (LLocked i) (set_stripe i m s)"
      using st j by (auto simp: tl_step_def delete_step_def loop_step_def)
    then show ?thesis using LRead inv j ok sa [of i] by (auto intro!: tl_inv_stripe_step rw_acct_rlock)
  next
    case (LLocked i)
    then have "s' = set_pc j (LBody i) (s\<lparr>tl_mu := rw_runlock (tl_mu s)\<rparr>)"
      using st j by (auto simp: tl_step_def delete_step_def loop_step_def)
    then show ?thesis using LLocked inv j ok mu by (auto intro!: tl_inv_mu_step rw_acct_runlock)
  next
    case (LBody i)
    then obtain pl t where "s' = set_pc j (LSwapped i) ((s\<lparr>tl_pool := pl\<rparr>)\<lparr>tl_batch := t\<rparr>)"
      using st j by (auto simp: tl_step_def delete_step_def loop_step_def)
    then show ?thesis using LBody inv j ok mu by (auto intro!: tl_inv_keep_step)
  next
    case (LSwapped i)
    then have "s' = set_pc j LIdle (set_stripe i (rw_runlock (tl_locks s ! i)) s)"
      using st j by (auto simp: tl_step_def delete_step_def loop_step_def)
    then show ?thesis using LSwapped inv j ok sa [of i] by (auto intro!: tl_inv_stripe_step rw_acct_runlock)
  qed (use st j in \<open>simp_all add: tl_step_def delete_step_def loop_step_def\<close>)
qed

lemma tl_init_inv: "list_all tl_start pcs \<Longrightarrow> tl_inv (tl_init n tid0 pcs)"
proof -
  assume a: "list_all tl_start pcs"
  have "\<And>p. tl_start p \<Longrightarrow> \<not> mu_w p \<and> \<not> mu_r p \<and> (\<forall>i. \<not> st_w i p \<and> \<not> st_r i p) \<and> pc_ok n p"
    by (case_tac p) simp_all
  then have "filter mu_w pcs = []" "filter mu_r pcs = []" "\<And>i. filter (st_w i) pcs = []"
    "\<And>i. filter (st_r i) pcs = []" "list_all (pc_ok n) pcs"
    using a by (auto simp: list_all_iff filter_empty_conv)
  then show ?thesis
    by (simp add: tl_inv_def tl_init_def newTimeLock_def rw_acct_def rw_free_def)
qed

lemma tl_locks_step: "tl_step fb fresh j s = Some s' \<Longrightarrow> length (tl_locks s') = length (tl_locks s)"
  by (auto simp: tl_step_def delete_step_def loop_step_def set_pc_def set_stripe_def Let_def split: if_splits pc.splits sum.splits)

lemma tl_reach_inv:
  assumes "tl_reach fb s0 s" "tl_inv s0" "\<forall>x. fb x < length (tl_locks s0)"
  shows "tl_inv s \<and> length (tl_locks s) = length (tl_locks s0)"
  using assms
proof (induction rule: tl_reach.induct)
  case tl_refl
  then show ?case by simp
next
  case (tl_next s fresh j s')
  then show ?case using tl_step_inv [of s fb fresh j s'] tl_locks_step [of fb fresh j s s'] by simp
qed

lemma two_in_filter:
  "a < length xs \<Longrightarrow> b < length xs \<Longrightarrow> a \<noteq> b \<Longrightarrow> P (xs ! a) \<Longrightarrow> P (xs ! b) \<Longrightarrow> 2 \<le> length (filter P xs)"
proof -
  assume h: "a < length xs" "b < length xs" "a \<noteq> b" "P (xs ! a)" "P (xs ! b)"
  have "{a, b} \<subseteq> {i. i < length xs \<and> P (xs ! i)}" using h by auto
  then have "card {a, b} \<le> card {i. i < length xs \<and> P (xs ! i)}" by (rule card_mono [rotated]) simp
  then show ?thesis using h(3) by (simp add: length_filter_conv_card)
qed

lemma one_in_filter: "a < length xs \<Longrightarrow> P (xs ! a) \<Longrightarrow> 0 < length (filter P xs)"
  by (metis filter_empty_conv length_greater_0_conv nth_mem)

lemma rw_acct_exclusive:
  "rw_acct m W R ps \<Longrightarrow> a < length ps \<Longrightarrow> b < length ps \<Longrightarrow> W (ps ! a) \<Longrightarrow> W (ps ! b) \<or> R (ps ! b) \<Longrightarrow> a = b"
  using two_in_filter [of a ps b W] one_in_filter [of a ps W] one_in_filter [of b ps R]
  unfolding rw_acct_def by (auto split: if_splits)

text \<open>C11: In every state reachable by interleaving deletes and tiny-batch loop rounds from a state where no lock is held, a thread that holds a stripe of the time lock for writing is the only thread holding that stripe, for writing or for reading.\<close>

theorem stripe_exclusive:
  assumes "tl_reach fb (tl_init nLocks tid0 pcs) s" "list_all tl_start pcs" "range fb \<subseteq> {..<nLocks}"
    and "a < length (tl_pcs s)" "b < length (tl_pcs s)" "a \<noteq> b" "st_w i (tl_pcs s ! a)"
  shows "\<not> st_w i (tl_pcs s ! b) \<and> \<not> st_r i (tl_pcs s ! b)"
proof -
  have l: "length (tl_locks (tl_init nLocks tid0 pcs)) = nLocks" by (simp add: tl_init_def newTimeLock_def)
  have inv: "tl_inv s" "length (tl_locks s) = nLocks"
    using tl_reach_inv [OF assms(1) tl_init_inv [OF assms(2)]] assms(3) l by auto
  have "i < nLocks" using tl_inv_pc_ok [OF inv(1) assms(4)] assms(7) inv(2)
    by (cases "tl_pcs s ! a") simp_all
  then have "rw_acct (tl_locks s ! i) (st_w i) (st_r i) (tl_pcs s)" using inv by (simp add: tl_inv_def)
  then show ?thesis using rw_acct_exclusive assms(4-7) by blast
qed

lemma tl_run_reach: "tl_reach fb s0 s \<Longrightarrow> tl_run fb sched s = Some s' \<Longrightarrow> tl_reach fb s0 s'"
proof (induction sched arbitrary: s)
  case Nil
  then show ?case by simp
next
  case (Cons a sched)
  then show ?case by (cases a) (auto split: option.splits intro: tl_reach.tl_next)
qed

lemmas tl_eval = tl_step_def delete_step_def loop_step_def tl_init_def newTimeLock_def rw_free_def rw_lock_def rw_rlock_def rw_unlock_def
  rw_runlock_def set_pc_def set_stripe_def getTimeLock_def

subsection \<open>Two threads on one stripe\<close>

text \<open>
  A delete of key 7 (thread 0) and the tiny-batch loop (thread 1), with one
  stripe and the tiny batch of TimeID 1: the loop read-locks the stripe and
  releases \<open>db.mu\<close>; the delete takes \<open>db.mu\<close>, reads TimeID 1 and then
  waits for the stripe until the loop has started the batch of TimeID 2.
\<close>

lemma tl_demo_reach:
  "tl_reach (\<lambda>_. 0) (tl_init 1 1 [DStart 7, LIdle]) \<lparr>tl_mu = \<lparr>rw_readers = 0, rw_writer = True\<rparr>, tl_locks = [\<lparr>rw_readers = 0, rw_writer = True\<rparr>],
      tl_batch = \<lparr>lb_timeID = 2, lb_count = 0\<rparr>, tl_blocks = Map.empty, tl_pool = [],
      tl_pcs = [DLocked 7 1 0, LIdle]\<rparr>"
  by (rule tl_run_reach [OF tl_reach.tl_refl, of _ "[(1, 0), (1, 0), (1, 0), (1, 0), (0, 0), (0, 0), (1, 2), (1, 0), (0, 0)]"])
     (simp add: tl_eval)

theorem stripe_index_in_range:
  assumes "tl_reach fb (tl_init nLocks tid0 pcs) s" "list_all tl_start pcs" "range fb \<subseteq> {..<nLocks}"
  shows "length (tl_locks s) = nLocks \<and> list_all (pc_ok nLocks) (tl_pcs s)"
proof -
  have l: "length (tl_locks (tl_init nLocks tid0 pcs)) = nLocks" by (simp add: tl_init_def newTimeLock_def)
  show ?thesis
    using tl_reach_inv [OF assms(1) tl_init_inv [OF assms(2)]] assms(3) l by (auto simp: tl_inv_def)
qed

theorem stripe_index_in_range_witness:
  "tl_reach (\<lambda>_. 0) (tl_init 1 1 [DStart 7, LIdle]) (\<lparr>tl_mu = \<lparr>rw_readers = 0, rw_writer = True\<rparr>, tl_locks = [\<lparr>rw_readers = 0, rw_writer = True\<rparr>],
      tl_batch = \<lparr>lb_timeID = 2, lb_count = 0\<rparr>, tl_blocks = Map.empty, tl_pool = [],
      tl_pcs = [DLocked 7 1 0, LIdle]\<rparr>)
   \<and> list_all tl_start [DStart 7, LIdle] \<and> range (\<lambda>_::u64. 0::nat) \<subseteq> {..<1}
   \<and> length (tl_locks (\<lparr>tl_mu = \<lparr>rw_readers = 0, rw_writer = True\<rparr>, tl_locks = [\<lparr>rw_readers = 0, rw_writer = True\<rparr>],
      tl_batch = \<lparr>lb_timeID = 2, lb_count = 0\<rparr>, tl_blocks = Map.empty, tl_pool = [],
      tl_pcs = [DLocked 7 1 0, LIdle]\<rparr>)) = 1 \<and> list_all (pc_ok 1) (tl_pcs (\<lparr>tl_mu = \<lparr>rw_readers = 0, rw_writer = True\<rparr>, tl_locks = [\<lparr>rw_readers = 0, rw_writer = True\<rparr>],
      tl_batch = \<lparr>lb_timeID = 2, lb_count = 0\<rparr>, tl_blocks = Map.empty, tl_pool = [],
      tl_pcs = [DLocked 7 1 0, LIdle]\<rparr>))"
proof -
  have h: "list_all tl_start [DStart 7, LIdle]" "range (\<lambda>_::u64. 0::nat) \<subseteq> {..<1}" by auto
  have e: "length (tl_locks (\<lparr>tl_mu = \<lparr>rw_readers = 0, rw_writer = True\<rparr>, tl_locks = [\<lparr>rw_readers = 0, rw_writer = True\<rparr>],
      tl_batch = \<lparr>lb_timeID = 2, lb_count = 0\<rparr>, tl_blocks = Map.empty, tl_pool = [],
      tl_pcs = [DLocked 7 1 0, LIdle]\<rparr>)) = 1 \<and> list_all (pc_ok 1) (tl_pcs (\<lparr>tl_mu = \<lparr>rw_readers = 0, rw_writer = True\<rparr>, tl_locks = [\<lparr>rw_readers = 0, rw_writer = True\<rparr>],
      tl_batch = \<lparr>lb_timeID = 2, lb_count = 0\<rparr>, tl_blocks = Map.empty, tl_pool = [],
      tl_pcs = [DLocked 7 1 0, LIdle]\<rparr>))"
    by (rule stripe_index_in_range [OF tl_demo_reach h])
  show ?thesis by (intro conjI tl_demo_reach h conjunct1 [OF e] conjunct2 [OF e])
qed

theorem stripe_exclusive_witness:
  "tl_reach (\<lambda>_. 0) (tl_init 1 1 [DStart 7, LIdle]) (\<lparr>tl_mu = \<lparr>rw_readers = 0, rw_writer = True\<rparr>, tl_locks = [\<lparr>rw_readers = 0, rw_writer = True\<rparr>],
      tl_batch = \<lparr>lb_timeID = 2, lb_count = 0\<rparr>, tl_blocks = Map.empty, tl_pool = [],
      tl_pcs = [DLocked 7 1 0, LIdle]\<rparr>)
   \<and> list_all tl_start [DStart 7, LIdle] \<and> range (\<lambda>_::u64. 0::nat) \<subseteq> {..<1}
   \<and> 0 < length (tl_pcs (\<lparr>tl_mu = \<lparr>rw_readers = 0, rw_writer = True\<rparr>, tl_locks = [\<lparr>rw_readers = 0, rw_writer = True\<rparr>],
      tl_batch = \<lparr>lb_timeID = 2, lb_count = 0\<rparr>, tl_blocks = Map.empty, tl_pool = [],
      tl_pcs = [DLocked 7 1 0, LIdle]\<rparr>)) \<and> 1 < length (tl_pcs (\<lparr>tl_mu = \<lparr>rw_readers = 0, rw_writer = True\<rparr>, tl_locks = [\<lparr>rw_readers = 0, rw_writer = True\<rparr>],
      tl_batch = \<lparr>lb_timeID = 2, lb_count = 0\<rparr>, tl_blocks = Map.empty, tl_pool = [],
      tl_pcs = [DLocked 7 1 0, LIdle]\<rparr>)) \<and> (0::nat) \<noteq> 1
   \<and> st_w 0 (tl_pcs (\<lparr>tl_mu = \<lparr>rw_readers = 0, rw_writer = True\<rparr>, tl_locks = [\<lparr>rw_readers = 0, rw_writer = True\<rparr>],
      tl_batch = \<lparr>lb_timeID = 2, lb_count = 0\<rparr>, tl_blocks = Map.empty, tl_pool = [],
      tl_pcs = [DLocked 7 1 0, LIdle]\<rparr>) ! 0)
   \<and> \<not> st_w 0 (tl_pcs (\<lparr>tl_mu = \<lparr>rw_readers = 0, rw_writer = True\<rparr>, tl_locks = [\<lparr>rw_readers = 0, rw_writer = True\<rparr>],
      tl_batch = \<lparr>lb_timeID = 2, lb_count = 0\<rparr>, tl_blocks = Map.empty, tl_pool = [],
      tl_pcs = [DLocked 7 1 0, LIdle]\<rparr>) ! 1) \<and> \<not> st_r 0 (tl_pcs (\<lparr>tl_mu = \<lparr>rw_readers = 0, rw_writer = True\<rparr>, tl_locks = [\<lparr>rw_readers = 0, rw_writer = True\<rparr>],
      tl_batch = \<lparr>lb_timeID = 2, lb_count = 0\<rparr>, tl_blocks = Map.empty, tl_pool = [],
      tl_pcs = [DLocked 7 1 0, LIdle]\<rparr>) ! 1)"
proof -
  let ?s = "\<lparr>tl_mu = \<lparr>rw_readers = 0, rw_writer = True\<rparr>, tl_locks = [\<lparr>rw_readers = 0, rw_writer = True\<rparr>],
      tl_batch = \<lparr>lb_timeID = 2, lb_count = 0\<rparr>, tl_blocks = Map.empty, tl_pool = [],
      tl_pcs = [DLocked 7 1 0, LIdle]\<rparr>"
  have r: "tl_reach (\<lambda>_. 0) (tl_init 1 1 [DStart 7, LIdle]) ?s"
    by (rule tl_demo_reach)
  have h: "list_all tl_start [DStart 7, LIdle]" "range (\<lambda>_::u64. 0::nat) \<subseteq> {..<1}"
    "0 < length (tl_pcs ?s)" "1 < length (tl_pcs ?s)" "(0::nat) \<noteq> 1" "st_w 0 (tl_pcs ?s ! 0)"
    by auto
  have e: "\<not> st_w 0 (tl_pcs ?s ! 1) \<and> \<not> st_r 0 (tl_pcs ?s ! 1)"
    by (rule stripe_exclusive [OF r h])
  show ?thesis by (intro conjI r h conjunct1 [OF e] conjunct2 [OF e])
qed

text \<open>C27: A delete that reads the tiny batch TimeID while the tiny-batch loop holds the stripe writes its marker into the block of that TimeID but increments the next tiny batch; the old batch, empty, is never handed to the pool, and the next one is handed over with count 1 and no block.\<close>

theorem delete_counted_in_next_batch:
  "\<exists>s. tl_reach (\<lambda>_. 0) (tl_init 1 1 [DStart 7, LIdle]) s \<and> tl_pcs s = [DDone, LIdle]
       \<and> tl_blocks s 1 = Some [(7, 1)] \<and> tl_blocks s 2 = None
       \<and> tl_pool s = [\<lparr>lb_timeID = 2, lb_count = 1\<rparr>]"
proof -
  let ?sched = "[(1, 0), (1, 0), (1, 0), (1, 0), (0, 0), (0, 0), (1, 2), (1, 0), (0, 0),
                 (0, 0), (0, 0), (0, 0), (0, 0), (1, 0), (1, 0), (1, 0), (1, 0), (1, 3), (1, 0)]"
  let ?s = "\<lparr>tl_mu = rw_free, tl_locks = [rw_free], tl_batch = \<lparr>lb_timeID = 3, lb_count = 0\<rparr>,
            tl_blocks = [1 \<mapsto> [(7, 1)]], tl_pool = [\<lparr>lb_timeID = 2, lb_count = 1\<rparr>], tl_pcs = [DDone, LIdle]\<rparr>"
  have "tl_run (\<lambda>_. 0) ?sched (tl_init 1 1 [DStart 7, LIdle]) = Some ?s"
    by (simp add: tl_eval)
  then have "tl_reach (\<lambda>_. 0) (tl_init 1 1 [DStart 7, LIdle]) ?s"
    by (rule tl_run_reach [OF tl_reach.tl_refl])
  then show ?thesis by (intro exI [of _ ?s]) simp
qed

end
