(* ===== verification/Metrics.thy ===== *)
theory Metrics
  imports Prelude
begin

text \<open>
  The time-series metric (\<open>src/unnamed/part_000\<close>, lines 110--345, package
  \<open>metrics\<close>).  A \<open>_TimeSeries\<close> wraps a histogram and forwards every reading
  and every update to it; \<open>Snapshot\<close> freezes a copy as a
  \<open>TimeSeriesSnapshot\<close>, which answers the same readings but panics on every
  update.  The histogram (\<open>NewHistogram\<close>, \<open>NewSample\<close>) is not in the
  sources: it is a state of type \<open>'h\<close> with the operations \<open>hist_ops\<close>.  The
  readings are one function over the datatype \<open>ts_stat\<close> of the interface's
  fourteen duration methods (\<open>Max\<close>, \<open>Min\<close> and \<open>Range\<close> are
  \<open>MaxDur\<close>, \<open>MinDur\<close> and \<open>RangeDur\<close>, apart from the HOL constants).  Durations are \<open>time.Duration\<close>, nanoseconds in
  an \<open>int64\<close>; the clock readings of \<open>Time\<close> are inputs.  The registry of
  \<open>GetOrRegisterTimeSeries\<close> is not in the sources and is not modelled.
\<close>

datatype ts_stat =
  Cumulative | HMean | Avg | P50 | P75 | P95 | P99 | P999 | Long5p | Short5p | MaxDur | MinDur | StdDev | RangeDur

record 'h hist_ops =
  h_read :: "'h \<Rightarrow> ts_stat \<Rightarrow> i64"
  h_addTime :: "'h \<Rightarrow> i64 \<Rightarrow> 'h"
  h_setWallTime :: "'h \<Rightarrow> i64 \<Rightarrow> 'h"
  h_snapshot :: "'h \<Rightarrow> 'h"

datatype 'h timeSeries = TS 'h | TSSnapshot 'h

definition newTimeSeries :: "'h \<Rightarrow> 'h timeSeries" where
  "newTimeSeries h0 = TS h0"

text \<open>
  The fourteen readings of each implementation forward to its histogram:
  \<open>series_read\<close> for \<open>_TimeSeries\<close>, \<open>snapshot_read\<close> for
  \<open>TimeSeriesSnapshot\<close>; \<open>ts_read\<close> is the call through the interface.
\<close>

definition series_read :: "'h hist_ops \<Rightarrow> 'h \<Rightarrow> ts_stat \<Rightarrow> i64" where
  "series_read ops h s = h_read ops h s"

definition snapshot_read :: "'h hist_ops \<Rightarrow> 'h \<Rightarrow> ts_stat \<Rightarrow> i64" where
  "snapshot_read ops h s = h_read ops h s"

definition ts_read :: "'h hist_ops \<Rightarrow> 'h timeSeries \<Rightarrow> ts_stat \<Rightarrow> i64" where
  "ts_read ops t s = (case t of TS h \<Rightarrow> series_read ops h s | TSSnapshot h \<Rightarrow> snapshot_read ops h s)"

text \<open>The updates of the interface, and the panic of each on a snapshot.\<close>

datatype ts_update = AddTime i64 | SetWallTime i64 | TimeOf i64 i64

definition snapshot_panic :: "ts_update \<Rightarrow> go_error" where
  "snapshot_panic u =
     Panic (case u of TimeOf _ _ \<Rightarrow> ''Time called on a TimeSeriesSnapshot''
            | AddTime _ \<Rightarrow> ''AddTime called on a TimeSeriesSnapshot''
            | SetWallTime _ \<Rightarrow> ''SetWallTime called on a TimeSeriesSnapshot'')"

definition ts_addTime :: "'h hist_ops \<Rightarrow> 'h timeSeries \<Rightarrow> i64 \<Rightarrow> go_error + 'h timeSeries" where
  "ts_addTime ops t d =
     (case t of TS h \<Rightarrow> Inr (TS (h_addTime ops h d))
      | TSSnapshot _ \<Rightarrow> Inl (snapshot_panic (AddTime d)))"

definition ts_setWallTime :: "'h hist_ops \<Rightarrow> 'h timeSeries \<Rightarrow> i64 \<Rightarrow> go_error + 'h timeSeries" where
  "ts_setWallTime ops t d =
     (case t of TS h \<Rightarrow> Inr (TS (h_setWallTime ops h d))
      | TSSnapshot _ \<Rightarrow> Inl (snapshot_panic (SetWallTime d)))"

text \<open>
  \<open>Time(f)\<close> reads the clock, runs \<open>f\<close> and adds the time since the first
  reading; \<open>t0\<close> and \<open>t1\<close> are the two clock readings.  On a snapshot it
  panics before running \<open>f\<close>.
\<close>

definition ts_time :: "'h hist_ops \<Rightarrow> 'h timeSeries \<Rightarrow> i64 \<Rightarrow> i64 \<Rightarrow> go_error + 'h timeSeries" where
  "ts_time ops t t0 t1 =
     (case t of TS h \<Rightarrow> ts_addTime ops t (t1 - t0)
      | TSSnapshot _ \<Rightarrow> Inl (snapshot_panic (TimeOf t0 t1)))"

definition ts_snapshot :: "'h hist_ops \<Rightarrow> 'h timeSeries \<Rightarrow> 'h timeSeries" where
  "ts_snapshot ops t = (case t of TS h \<Rightarrow> TSSnapshot (h_snapshot ops h) | TSSnapshot h \<Rightarrow> t)"

text \<open>A sequence of updates applied to a time series, stopping at the first panic.\<close>

fun ts_apply :: "'h hist_ops \<Rightarrow> 'h timeSeries \<Rightarrow> ts_update list \<Rightarrow> go_error + 'h timeSeries" where
  "ts_apply ops t [] = Inr t"
| "ts_apply ops t (u # us) =
     (case (case u of AddTime d \<Rightarrow> ts_addTime ops t d | SetWallTime d \<Rightarrow> ts_setWallTime ops t d
                | TimeOf t0 t1 \<Rightarrow> ts_time ops t t0 t1) of
        Inl e \<Rightarrow> Inl e
      | Inr t' \<Rightarrow> ts_apply ops t' us)"

subsection \<open>A snapshot is read-only\<close>

text \<open>
  Every update on a snapshot panics, a snapshot's \<open>Snapshot\<close> is itself, and
  the readings of a snapshot are those of the histogram's snapshot at the time
  it was taken, whatever is done to the series afterwards.
\<close>

lemma ts_snapshot_panics:
  "us \<noteq> [] \<Longrightarrow> \<exists>e. ts_apply ops (TSSnapshot h) us = Inl e"
  by (cases us; cases "hd us") (auto simp: ts_addTime_def ts_setWallTime_def ts_time_def)

lemma ts_apply_keeps_kind: "ts_apply ops (TS h) us = Inr t' \<Longrightarrow> \<exists>h'. t' = TS h'"
proof (induction us arbitrary: h)
  case Nil
  then show ?case by auto
next
  case (Cons u us)
  then show ?case
    by (cases u) (auto simp: ts_addTime_def ts_setWallTime_def ts_time_def)
qed

theorem ts_snapshot_frozen:
  "ts_read ops (ts_snapshot ops (TS h)) s = h_read ops (h_snapshot ops h) s
   \<and> ts_snapshot ops (ts_snapshot ops t) = ts_snapshot ops t
   \<and> (\<exists>e. ts_apply ops (ts_snapshot ops (TS h)) (u # us) = Inl e)"
  using ts_snapshot_panics [of "u # us" ops "h_snapshot ops h"]
  by (simp add: ts_read_def snapshot_read_def ts_snapshot_def split: timeSeries.splits)

theorem ts_time_adds_elapsed:
  "ts_apply ops (TS h) [TimeOf t0 t1] = Inr (TS (h_addTime ops h (t1 - t0)))"
  by (simp add: ts_time_def ts_addTime_def)

end
