(* ===== verification/DbEntry.thy ===== *)
theory DbEntry
  imports DbCore
begin

text \<open>
  Reading and deleting one entry of the store (\<open>db_internal.go\<close>):
  \<open>readEntry\<close> (lines 200--233) looks the sequence up in the memdb cache and
  otherwise scans the 255 slots of its index block; \<open>delete\<close> (lines 438--468)
  removes it from the memdb cache and from its index block, frees its space in
  the lease and decrements the entry count.  The collaborators that are not in
  the sources are the environment \<open>de_env\<close>: the block index arithmetic
  (\<open>startBlockIndex\<close>, which returns an \<open>int32\<close> since \<open>delete\<close> compares
  it with \<open>blocks()\<close>, and \<open>blockOffset\<close>), the memdb's \<open>Get\<close> and
  \<open>Remove\<close>, the entry codec and \<open>mSize\<close>, the index block reader and
  \<open>blockWriter.del\<close>, the Bloom filter and \<open>sync\<close>.  The lease is the list
  of the \<open>(seq, msgOffset, mSize)\<close> triples freed so far.  The Go type
  \<open>slot\<close> of this package is the record \<open>index_slot\<close>, apart from the
  tracedb \<open>slot\<close> of \<open>Iterator\<close>.
\<close>

record index_slot =
  ix_seq :: u64
  ix_topicSize :: u16
  ix_valueSize :: u32
  ix_msgOffset :: i64
  ix_expiresAt :: u32
  ix_cacheBlock :: "byte list"

definition slot_zero :: index_slot where
  "slot_zero = \<lparr>ix_seq = 0, ix_topicSize = 0, ix_valueSize = 0, ix_msgOffset = 0, ix_expiresAt = 0,
                ix_cacheBlock = []\<rparr>"

record de_env =
  de_startBlockIndex :: "u64 \<Rightarrow> 32 word"
  de_blockOffset :: "32 word \<Rightarrow> i64"
  de_memGet :: "u64 \<Rightarrow> u64 \<Rightarrow> go_error + byte list option"
  de_unmarshal :: "byte list \<Rightarrow> index_slot"
  de_blockRead :: "i64 \<Rightarrow> go_error + index_slot list"
  de_filterTest :: "u64 \<Rightarrow> bool"
  de_memRemove :: "u64 \<Rightarrow> u64 \<Rightarrow> go_error option"
  de_blockDel :: "u64 \<Rightarrow> go_error + index_slot"
  de_mSize :: "index_slot \<Rightarrow> u32"
  de_sync :: "go_error option"

definition entriesPerIndexBlock :: nat where
  "entriesPerIndexBlock = 255"

text \<open>The slot scan of \<open>readEntry\<close>: \<open>for i := 0; i < entriesPerIndexBlock; i++\<close>.\<close>

function scan_slots :: "u64 \<Rightarrow> index_slot list \<Rightarrow> nat \<Rightarrow> index_slot option" where
  "scan_slots sq entries i =
     (if i < entriesPerIndexBlock then
        (if ix_seq (entries ! i) = sq then Some (entries ! i) else scan_slots sq entries (i + 1))
      else None)"
  by pat_completeness auto
termination by (relation "measure (\<lambda>(_, _, i). entriesPerIndexBlock - i)") auto

declare scan_slots.simps [simp del]

text \<open>
  \<open>readEntry\<close>: an error of the memdb reads as \<open>errMsgIDDeleted\<close>; cached data
  is an entry header of \<open>entrySize\<close> bytes and the cache block (slicing a
  shorter buffer panics); otherwise the index block is read and scanned, and a
  sequence absent from it gives the zero slot without error.
\<close>

definition readEntry :: "de_env \<Rightarrow> nat \<Rightarrow> udb \<Rightarrow> u64 \<Rightarrow> u64 \<Rightarrow> go_error + index_slot" where
  "readEntry env entrySize u topicHash sq =
     (let blockID = de_startBlockIndex env sq;
          memseq = xor (di_cacheID (u_info u)) sq
      in case de_memGet env (scast blockID) memseq of
           Inl _ \<Rightarrow> Inl (dberr ErrMsgIdDeleted)
         | Inr (Some data) \<Rightarrow>
             (if length data < entrySize then Inl (Panic ''slice bounds out of range'')
              else let e = de_unmarshal env (take entrySize data) in
                Inr (slot_zero\<lparr>ix_seq := ix_seq e, ix_topicSize := ix_topicSize e,
                               ix_valueSize := ix_valueSize e, ix_cacheBlock := drop entrySize data\<rparr>))
         | Inr None \<Rightarrow>
             (case de_blockRead env (de_blockOffset env (de_startBlockIndex env sq)) of
                Inl err \<Rightarrow> Inl err
              | Inr entries \<Rightarrow>
                  (case scan_slots sq entries 0 of Some s \<Rightarrow> Inr s | None \<Rightarrow> Inr slot_zero)))"

text \<open>
  \<open>delete\<close>: nothing happens on an immutable store or when the filter rules
  the sequence out; otherwise the memdb entry is removed, and when the block of
  the sequence is on disk the slot is deleted, its space freed in the lease and
  the count decremented, followed by a sync when writes are synchronous.
\<close>

definition db_delete :: "de_env \<Rightarrow> bool \<Rightarrow> bool \<Rightarrow> u64 \<Rightarrow> u64 \<Rightarrow> udb \<times> (u64 \<times> i64 \<times> u32) list
                         \<Rightarrow> go_error option \<times> udb \<times> (u64 \<times> i64 \<times> u32) list" where
  "db_delete env immutable syncWrites topicHash sq st =
     (let (u, lease) = st in
      if immutable then (None, u, lease)
      else if \<not> de_filterTest env sq then (None, u, lease)
      else
        let blockID = de_startBlockIndex env sq;
            memseq = xor (di_cacheID (u_info u)) sq
        in case de_memRemove env (scast blockID) memseq of
             Some err \<Rightarrow> (Some err, u, lease)
           | None \<Rightarrow>
               let blockIdx = de_startBlockIndex env sq in
               if sint (blocks u) < sint blockIdx then (None, u, lease)
               else case de_blockDel env sq of
                      Inl err \<Rightarrow> (Some err, u, lease)
                    | Inr e \<Rightarrow>
                        let lease' = lease @ [(ix_seq e, ix_msgOffset e, de_mSize env e)];
                            u' = snd (decount 1 u)
                        in if syncWrites then (de_sync env, u', lease') else (None, u', lease'))"

text \<open>An environment for examples: every sequence is in block 0, the memdb is empty and the index block holds only empty slots.\<close>

definition demo_de_env :: de_env where
  "demo_de_env =
     \<lparr>de_startBlockIndex = (\<lambda>_. 0), de_blockOffset = (\<lambda>_. 0), de_memGet = (\<lambda>_ _. Inr None),
      de_unmarshal = (\<lambda>_. slot_zero), de_blockRead = (\<lambda>_. Inr (replicate entriesPerIndexBlock slot_zero)),
      de_filterTest = (\<lambda>_. True), de_memRemove = (\<lambda>_ _. None), de_blockDel = (\<lambda>_. Inr slot_zero),
      de_mSize = (\<lambda>_. 0), de_sync = None\<rparr>"


subsection \<open>Reading an entry\<close>

text \<open>
  The slot scan is \<open>find\<close> on the block's slots.  A sequence the memdb holds
  is read from its cached header; a memdb error reads as \<open>errMsgIDDeleted\<close>;
  a sequence found in neither the memdb nor its index block gives the zero slot
  and no error.
\<close>

lemma scan_slots_find:
  "length entries = entriesPerIndexBlock \<Longrightarrow>
   scan_slots sq entries i = find (\<lambda>s. ix_seq s = sq) (drop i entries)"
proof (induction sq entries i rule: scan_slots.induct)
  case (1 sq entries i)
  show ?case
  proof (cases "i < entriesPerIndexBlock")
    case True
    then have d: "drop i entries = entries ! i # drop (Suc i) entries" using "1.prems" by (simp add: Cons_nth_drop_Suc)
    show ?thesis using True "1.IH" [OF True] "1.prems" by (subst scan_slots.simps) (simp add: d)
  next
    case False
    then show ?thesis using "1.prems" by (subst scan_slots.simps) simp
  qed
qed

lemma readEntry_index:
  assumes "de_memGet env (scast (de_startBlockIndex env sq)) (xor (di_cacheID (u_info u)) sq) = Inr None"
    and "de_blockRead env (de_blockOffset env (de_startBlockIndex env sq)) = Inr entries"
    and "length entries = entriesPerIndexBlock"
  shows "readEntry env entrySize u topicHash sq
       = Inr (case find (\<lambda>s. ix_seq s = sq) entries of Some s \<Rightarrow> s | None \<Rightarrow> slot_zero)"
  using assms scan_slots_find [OF assms(3), of sq 0] by (simp add: readEntry_def Let_def split: option.splits)

text \<open>C16: When the memdb has no entry for a sequence and no slot of its index block carries it, readEntry returns the zero slot and no error, not MsgIdDoesNotExist.\<close>

lemma readEntry_absent_no_error:
  assumes "de_memGet env (scast (de_startBlockIndex env sq)) (xor (di_cacheID (u_info u)) sq) = Inr None"
    and "de_blockRead env (de_blockOffset env (de_startBlockIndex env sq)) = Inr entries"
    and "length entries = entriesPerIndexBlock" "sq \<notin> ix_seq ` set entries"
  shows "readEntry env entrySize u topicHash sq = Inr slot_zero"
proof -
  have "find (\<lambda>s. ix_seq s = sq) entries = None" using assms(4) by (auto simp: find_None_iff)
  then show ?thesis using readEntry_index [OF assms(1-3)] by simp
qed

lemma readEntry_cached:
  assumes "de_memGet env (scast (de_startBlockIndex env sq)) (xor (di_cacheID (u_info u)) sq) = Inr (Some data)"
    and "entrySize \<le> length data"
  shows "readEntry env entrySize u topicHash sq
       = Inr (slot_zero\<lparr>ix_seq := ix_seq (de_unmarshal env (take entrySize data)),
                       ix_topicSize := ix_topicSize (de_unmarshal env (take entrySize data)),
                       ix_valueSize := ix_valueSize (de_unmarshal env (take entrySize data)),
                       ix_cacheBlock := drop entrySize data\<rparr>)"
  using assms by (simp add: readEntry_def Let_def)

lemma readEntry_memdb_error:
  "de_memGet env (scast (de_startBlockIndex env sq)) (xor (di_cacheID (u_info u)) sq) = Inl e \<Longrightarrow>
   readEntry env entrySize u topicHash sq = Inl (dberr ErrMsgIdDeleted)"
  by (simp add: readEntry_def Let_def)

subsection \<open>Deleting an entry\<close>

text \<open>
  A delete whose block is on disk decrements the count (modulo \<open>2^64\<close>) and
  frees the slot's space in the lease; one whose block is beyond \<open>blocks()\<close>
  only removes the memdb entry; an error leaves the count and the lease as they
  were, except the error of the final sync.
\<close>

lemma db_delete_removes:
  assumes "\<not> immutable" "de_filterTest env sq"
    and "de_memRemove env (scast (de_startBlockIndex env sq)) (xor (di_cacheID (u_info u)) sq) = None"
    and "\<not> sint (blocks u) < sint (de_startBlockIndex env sq)" "de_blockDel env sq = Inr e"
  shows "db_delete env immutable syncWrites topicHash sq (u, lease)
       = ((if syncWrites then de_sync env else None),
          u\<lparr>u_info := (u_info u)\<lparr>di_count := di_count (u_info u) - 1\<rparr>\<rparr>,
          lease @ [(ix_seq e, ix_msgOffset e, de_mSize env e)])"
  using assms by (simp add: db_delete_def Let_def decount_def)

lemma db_delete_error_unchanged:
  assumes "db_delete env immutable syncWrites topicHash sq (u, lease) = (Some err, u', lease')"
    and "\<not> syncWrites"
  shows "u' = u \<and> lease' = lease"
  using assms by (auto simp: db_delete_def Let_def split: if_splits option.splits sum.splits)

lemma db_delete_memdb_only:
  assumes "\<not> immutable" "de_filterTest env sq"
    and "de_memRemove env (scast (de_startBlockIndex env sq)) (xor (di_cacheID (u_info u)) sq) = None"
    and "sint (blocks u) < sint (de_startBlockIndex env sq)"
  shows "db_delete env immutable syncWrites topicHash sq (u, lease) = (None, u, lease)"
  using assms by (simp add: db_delete_def Let_def)

theorem readEntry_absent_no_error_witness:
  "de_memGet demo_de_env (scast (de_startBlockIndex demo_de_env 42)) (xor (di_cacheID (u_info demo_udb)) 42) = Inr None
   \<and> de_blockRead demo_de_env (de_blockOffset demo_de_env (de_startBlockIndex demo_de_env 42))
       = Inr (replicate entriesPerIndexBlock slot_zero)
   \<and> length (replicate entriesPerIndexBlock slot_zero) = entriesPerIndexBlock
   \<and> 42 \<notin> ix_seq ` set (replicate entriesPerIndexBlock slot_zero)
   \<and> readEntry demo_de_env 16 demo_udb 0 42 = Inr slot_zero"
proof -
  have h: "de_memGet demo_de_env (scast (de_startBlockIndex demo_de_env 42)) (xor (di_cacheID (u_info demo_udb)) 42) = Inr None"
    "de_blockRead demo_de_env (de_blockOffset demo_de_env (de_startBlockIndex demo_de_env 42))
       = Inr (replicate entriesPerIndexBlock slot_zero)"
    "length (replicate entriesPerIndexBlock slot_zero) = entriesPerIndexBlock"
    "42 \<notin> ix_seq ` set (replicate entriesPerIndexBlock slot_zero)"
    by (simp_all add: demo_de_env_def entriesPerIndexBlock_def slot_zero_def)
  show ?thesis by (intro conjI h readEntry_absent_no_error [OF h])
qed

end
