(* ===== verification/SetEntry.thy ===== *)
theory SetEntry
  imports DbCore EntryLayout
begin

text \<open>
  \<open>DB.parseTopic\<close> and the whole of \<open>DB.setEntry\<close> (\<open>db_internal.go\<close>,
  lines 275--360), composed from the sequence choice \<open>assign_seq\<close> of
  \<open>DbCore\<close> and the record layout \<open>cache_entry\<close> of \<open>EntryLayout\<close>.  The
  \<open>Entry\<close> struct and the packages it calls (the topic parser of
  \<open>message\<close>, the trie, the lease's \<open>getSlot\<close>, message IDs, snappy, the
  cipher and the entry codec) are not in the sources: \<open>Entry\<close> is the record
  \<open>entry\<close> with the fields \<open>setEntry\<close> reads and writes, and the
  collaborators are the record \<open>se_env\<close>, over an abstract parsed topic
  \<open>'t\<close>.  \<open>setEntry\<close> changes the entry through its pointer, also on the
  error paths, so it returns the error, the entry and the store.
\<close>

record entry =
  en_ID :: "byte list option"
  en_Topic :: "byte list"
  en_Payload :: "byte list"
  en_Contract :: u32
  en_ExpiresAt :: u32
  en_parsed :: bool
  en_topicHash :: u64
  en_topicSize :: u16
  en_seq :: u64
  en_expiresAt :: u32
  en_valueSize :: u32
  en_cacheEntry :: "byte list"

record 't se_env =
  se_parse :: "u32 \<Rightarrow> byte list \<Rightarrow> 't option"
  se_ttl :: "'t \<Rightarrow> u32 option"
  se_hash :: "'t \<Rightarrow> u32 \<Rightarrow> u64"
  se_marshalTopic :: "'t \<Rightarrow> byte list"
  se_trieHas :: "u64 \<Rightarrow> bool"
  se_getSlot :: "u64 \<Rightarrow> u64 option"
  se_idSeq :: "byte list \<Rightarrow> u64"
  se_newID :: "u64 \<Rightarrow> byte list"
  se_prefix :: "byte list \<Rightarrow> u32 \<Rightarrow> byte list"
  se_snappy :: "byte list \<Rightarrow> byte list"
  se_encrypt :: "byte list \<Rightarrow> byte list"
  se_marshalEntry :: "entry \<Rightarrow> go_error + byte list"
  se_masterContract :: u32

text \<open>\<open>idSize\<close>: the message ID prefix and the encryption bit.\<close>

definition idSize :: u32 where
  "idSize = 9"

text \<open>
  \<open>parseTopic\<close>: an invalid topic is \<open>errBadRequest\<close>; otherwise the topic and
  its time to live, 0 when it has none.
\<close>

definition parseTopic :: "'t se_env \<Rightarrow> u32 \<Rightarrow> byte list \<Rightarrow> go_error + ('t \<times> u32)" where
  "parseTopic env contract topic =
     (case se_parse env contract topic of
        None \<Rightarrow> Inl (dberr ErrBadRequest)
      | Some t \<Rightarrow> Inr (t, case se_ttl env t of Some ttl \<Rightarrow> ttl | None \<Rightarrow> 0))"

text \<open>
  The first part of \<open>setEntry\<close>, for an entry not parsed yet: default the
  contract, parse the topic, take its time to live when the entry has no expiry,
  hash the topic and, for a topic the trie does not know, marshal it and record
  its size as a \<open>uint16\<close>.  The result is the raw topic (empty for a known
  topic or a parsed entry) and the entry.
\<close>

definition se_parseEntry :: "'t se_env \<Rightarrow> entry \<Rightarrow> go_error option \<times> byte list \<times> entry" where
  "se_parseEntry env e =
     (if en_parsed e then (None, [], e)
      else
        let e1 = (if en_Contract e = 0 then e\<lparr>en_Contract := se_masterContract env\<rparr> else e)
        in case parseTopic env (en_Contract e1) (en_Topic e1) of
             Inl err \<Rightarrow> (Some err, [], e1)
           | Inr (t, ttl) \<Rightarrow>
               let e2 = e1\<lparr>en_ExpiresAt := (if en_ExpiresAt e1 = 0 \<and> 0 < ttl then ttl else en_ExpiresAt e1),
                           en_topicHash := se_hash env t (en_Contract e1)\<rparr>;
                   raw = (if se_trieHas env (en_topicHash e2) then [] else se_marshalTopic env t);
                   e3 = (if se_trieHas env (en_topicHash e2) then e2
                         else e2\<lparr>en_topicSize := word_of_nat (length raw)\<rparr>)
               in (None, raw, e3\<lparr>en_parsed := True\<rparr>))"

text \<open>
  The middle of \<open>setEntry\<close>, once the sequence \<open>sq\<close> is chosen: the ID (the
  entry's, or a new one for \<open>sq\<close>), the encryption bit, the compressed and
  maybe encrypted value, and the entry with its sequence, expiry, value size
  and a zeroed cache record of \<open>mLen\<close> bytes.
\<close>

definition se_record :: "'t se_env \<Rightarrow> u32 \<Rightarrow> byte \<Rightarrow> bool \<Rightarrow> entry \<Rightarrow> u64
                         \<Rightarrow> byte list \<times> byte \<times> byte list \<times> entry" where
  "se_record env entrySize encryption encr e1 sq =
     (let msgId = (case en_ID e1 of Some i \<Rightarrow> i | None \<Rightarrow> se_newID env sq);
          e2 = e1\<lparr>en_seq := sq, en_expiresAt := en_ExpiresAt e1\<rparr>;
          val0 = se_snappy env (en_Payload e2);
          eBit = (if encryption = 1 \<or> encr then 1 else 0 :: byte);
          val = (if encryption = 1 \<or> encr then se_encrypt env val0 else val0);
          e3 = e2\<lparr>en_valueSize := word_of_nat (length val)\<rparr>;
          mLen = entrySize + idSize + ucast (en_topicSize e3) + en_valueSize e3
      in (msgId, eBit, val, e3\<lparr>en_cacheEntry := replicate (unat mLen) 0\<rparr>))"

text \<open>
  \<open>setEntry\<close>: parse, choose the sequence (the ID's, else a leased one, else
  \<open>nextSeq\<close>; 0 panics), build the entry, marshal it and lay the cache record
  out.  When the entry fails to marshal, the record stays the zeroed buffer.
\<close>

definition setEntry :: "'t se_env \<Rightarrow> u32 \<Rightarrow> byte \<Rightarrow> bool \<Rightarrow> entry \<Rightarrow> udb \<Rightarrow> go_error option \<times> entry \<times> udb" where
  "setEntry env entrySize encryption encr e u =
     (case se_parseEntry env e of
        (Some err, _, e1) \<Rightarrow> (Some err, e1, u)
      | (None, rawTopic, e1) \<Rightarrow>
          let leased = (if en_ID e1 = None then se_getSlot env (en_topicHash e1) else None)
          in case assign_seq (map_option (se_idSeq env) (en_ID e1)) leased u of
               Inl err \<Rightarrow> (Some err, e1, u)
             | Inr (sq, u1) \<Rightarrow>
                 let (msgId, eBit, val, e4) = se_record env entrySize encryption encr e1 sq
                 in case se_marshalEntry env e4 of
                      Inl err \<Rightarrow> (Some err, e4, u1)
                    | Inr entryData \<Rightarrow>
                        (case cache_entry entrySize idSize entryData (se_prefix env msgId (en_Contract e4)) eBit
                                (en_topicSize e4) rawTopic val of
                           Inl err \<Rightarrow> (Some err, e4, u1)
                         | Inr (_, ce) \<Rightarrow> (None, e4\<lparr>en_cacheEntry := ce\<rparr>, u1)))"


text \<open>
  An environment and an entry for examples: topics parse to themselves and are
  new to the trie, the ID's sequence is 5, its prefix is the ID, values are
  stored as they are, and an entry marshals to the low byte of its sequence.
\<close>

definition demo_se_env :: "byte list se_env" where
  "demo_se_env =
     \<lparr>se_parse = (\<lambda>c t. Some t), se_ttl = (\<lambda>_. None), se_hash = (\<lambda>t c. 7),
      se_marshalTopic = (\<lambda>t. t), se_trieHas = (\<lambda>_. False), se_getSlot = (\<lambda>_. None),
      se_idSeq = (\<lambda>_. 5), se_newID = (\<lambda>_. replicate 9 0), se_prefix = (\<lambda>i c. i),
      se_snappy = (\<lambda>v. v), se_encrypt = (\<lambda>v. v), se_marshalEntry = (\<lambda>e. Inr [ucast (en_seq e)]),
      se_masterContract = 1\<rparr>"

definition demo_entry :: entry where
  "demo_entry =
     \<lparr>en_ID = Some [1, 2, 3, 4, 5, 6, 7, 8, 9], en_Topic = [65, 66], en_Payload = [42], en_Contract = 1,
      en_ExpiresAt = 0, en_parsed = False, en_topicHash = 0, en_topicSize = 0, en_seq = 0,
      en_expiresAt = 0, en_valueSize = 0, en_cacheEntry = []\<rparr>"

subsection \<open>The stages of setEntry\<close>

text \<open>
  Parsing leaves a parsed entry alone, turns an invalid topic into
  \<open>errBadRequest\<close> (after defaulting the contract), and for a topic new to the
  trie returns its marshalled form and records its size.  Composed with the
  sequence choice and the layout of \<open>EntryLayout\<close>, the cache record of a
  successful \<open>setEntry\<close> is the marshalled entry, the ID prefix with the
  encryption bit, the raw topic padded to \<open>topicSize\<close>, and the value.
\<close>

lemma se_parseEntry_parsed: "en_parsed e \<Longrightarrow> se_parseEntry env e = (None, [], e)"
  by (simp add: se_parseEntry_def)

lemma se_parseEntry_invalid:
  assumes "\<not> en_parsed e" "se_parse env (if en_Contract e = 0 then se_masterContract env else en_Contract e) (en_Topic e) = None"
  shows "se_parseEntry env e = (Some (dberr ErrBadRequest), [],
           if en_Contract e = 0 then e\<lparr>en_Contract := se_masterContract env\<rparr> else e)"
  using assms by (cases "en_Contract e = 0") (simp_all add: se_parseEntry_def parseTopic_def Let_def)

lemma se_parseEntry_new:
  assumes "\<not> en_parsed e" "en_Contract e \<noteq> 0" "se_parse env (en_Contract e) (en_Topic e) = Some t"
    and "\<not> se_trieHas env (se_hash env t (en_Contract e))"
  shows "se_parseEntry env e = (None, se_marshalTopic env t,
           e\<lparr>en_ExpiresAt := (if en_ExpiresAt e = 0 \<and> 0 < (case se_ttl env t of Some ttl \<Rightarrow> ttl | None \<Rightarrow> 0)
                              then (case se_ttl env t of Some ttl \<Rightarrow> ttl | None \<Rightarrow> 0) else en_ExpiresAt e),
             en_topicHash := se_hash env t (en_Contract e),
             en_topicSize := word_of_nat (length (se_marshalTopic env t)), en_parsed := True\<rparr>)"
  using assms by (simp add: se_parseEntry_def parseTopic_def Let_def)

lemma setEntry_invalid_topic:
  assumes "\<not> en_parsed e" "se_parse env (if en_Contract e = 0 then se_masterContract env else en_Contract e) (en_Topic e) = None"
  shows "setEntry env entrySize encryption encr e u = (Some (dberr ErrBadRequest),
           if en_Contract e = 0 then e\<lparr>en_Contract := se_masterContract env\<rparr> else e, u)"
  using se_parseEntry_invalid [OF assms] by (simp add: setEntry_def)

lemma se_record_keeps:
  "se_record env entrySize encryption encr e1 sq = (mid, eBit, val, e4) \<Longrightarrow>
   en_topicSize e4 = en_topicSize e1 \<and> en_Contract e4 = en_Contract e1 \<and> en_seq e4 = sq"
  by (auto simp: se_record_def Let_def)

lemma setEntry_layout:
  assumes p: "se_parseEntry env e = (None, raw, e1)"
    and a: "assign_seq (map_option (se_idSeq env) (en_ID e1))
              (if en_ID e1 = None then se_getSlot env (en_topicHash e1) else None) u = Inr (sq, u1)"
    and r: "se_record env entrySize encryption encr e1 sq = (mid, eBit, val, e4)"
    and m: "se_marshalEntry env e4 = Inr d" "length d = unat entrySize"
    and l: "length (se_prefix env mid (en_Contract e4)) = unat idSize" "length raw \<le> unat (en_topicSize e4)"
    and b: "unat entrySize + unat idSize + unat (en_topicSize e4) + length val < 2^32"
  shows "setEntry env entrySize encryption encr e u
       = (None, e4\<lparr>en_cacheEntry := d @ butlast (se_prefix env mid (en_Contract e4)) @ [eBit] @ raw
                                    @ replicate (unat (en_topicSize e4) - length raw) 0 @ val\<rparr>, u1)"
proof -
  have "0 < unat idSize" by (simp add: idSize_def)
  then have c: "cache_entry entrySize idSize d (se_prefix env mid (en_Contract e4)) eBit (en_topicSize e4) raw val
      = Inr (word_of_nat (length val), d @ butlast (se_prefix env mid (en_Contract e4)) @ [eBit] @ raw
              @ replicate (unat (en_topicSize e4) - length raw) 0 @ val)"
    using m(2) l b by (intro cache_entry_layout) simp_all
  show ?thesis using p a r m(1) c by (simp add: setEntry_def)
qed

text \<open>C28: setEntry of an entry that is already parsed reserves topicSize bytes of the cache record but copies no topic into them, so that region is zeros.\<close>

theorem setEntry_reparsed_zero_topic:
  assumes "en_parsed e" "en_ID e = Some i" "se_idSeq env i \<noteq> 0"
    and r: "se_record env entrySize encryption encr e (se_idSeq env i) = (mid, eBit, val, e4)"
    and m: "se_marshalEntry env e4 = Inr d" "length d = unat entrySize"
    and l: "length (se_prefix env mid (en_Contract e)) = unat idSize"
    and b: "unat entrySize + unat idSize + unat (en_topicSize e) + length val < 2^32"
  shows "setEntry env entrySize encryption encr e u
       = (None, e4\<lparr>en_cacheEntry := d @ butlast (se_prefix env mid (en_Contract e)) @ [eBit]
                                    @ replicate (unat (en_topicSize e)) 0 @ val\<rparr>, u)"
proof -
  have a: "assign_seq (map_option (se_idSeq env) (en_ID e))
             (if en_ID e = None then se_getSlot env (en_topicHash e) else None) u = Inr (se_idSeq env i, u)"
    using assms(2,3) by (simp add: assign_seq_def)
  have k: "en_topicSize e4 = en_topicSize e" "en_Contract e4 = en_Contract e" using se_record_keeps [OF r] by simp_all
  show ?thesis
    using setEntry_layout [OF se_parseEntry_parsed [OF assms(1)] a r m] l b k by simp
qed

text \<open>C34: setEntry of an unparsed entry with an ID and a topic new to the trie, when the sizes fit, returns no error, leaves the sequence counter alone and fills the cache record with the marshalled entry, the ID prefix with the encryption bit, the whole marshalled topic and the value.\<close>

theorem setEntry_new_topic:
  assumes n: "\<not> en_parsed e" "en_Contract e \<noteq> 0" "se_parse env (en_Contract e) (en_Topic e) = Some t"
      "\<not> se_trieHas env (se_hash env t (en_Contract e))"
    and i: "en_ID e = Some i" "se_idSeq env i \<noteq> 0"
    and t: "length (se_marshalTopic env t) < 2^16"
    and r: "se_record env entrySize encryption encr (snd (snd (se_parseEntry env e))) (se_idSeq env i)
              = (mid, eBit, val, e4)"
    and m: "se_marshalEntry env e4 = Inr d" "length d = unat entrySize"
    and l: "length (se_prefix env mid (en_Contract e)) = unat idSize"
    and b: "unat entrySize + unat idSize + length (se_marshalTopic env t) + length val < 2^32"
  shows "setEntry env entrySize encryption encr e u
       = (None, e4\<lparr>en_cacheEntry := d @ butlast (se_prefix env mid (en_Contract e)) @ [eBit]
                                    @ se_marshalTopic env t @ val\<rparr>, u)"
proof -
  obtain e1 where p: "se_parseEntry env e = (None, se_marshalTopic env t, e1)"
    and e1: "en_ID e1 = en_ID e" "en_Contract e1 = en_Contract e"
            "en_topicSize e1 = word_of_nat (length (se_marshalTopic env t))"
    using se_parseEntry_new [OF n] by simp
  have a: "assign_seq (map_option (se_idSeq env) (en_ID e1))
             (if en_ID e1 = None then se_getSlot env (en_topicHash e1) else None) u = Inr (se_idSeq env i, u)"
    using i e1(1) by (simp add: assign_seq_def)
  have r1: "se_record env entrySize encryption encr e1 (se_idSeq env i) = (mid, eBit, val, e4)"
    using r p by simp
  have k: "en_topicSize e4 = en_topicSize e1" "en_Contract e4 = en_Contract e1"
    using se_record_keeps [OF r1] by simp_all
  have ts: "unat (en_topicSize e4) = length (se_marshalTopic env t)"
    using k(1) e1(3) t by (simp add: unat_of_nat take_bit_nat_eq_self)
  show ?thesis
    using setEntry_layout [OF p a r1 m] l b k e1(2) ts by simp
qed

theorem setEntry_reparsed_zero_topic_witness:
  "en_parsed (demo_entry\<lparr>en_parsed := True, en_topicSize := 2\<rparr>)
   \<and> en_ID (demo_entry\<lparr>en_parsed := True, en_topicSize := 2\<rparr>) = Some [1, 2, 3, 4, 5, 6, 7, 8, 9]
   \<and> se_idSeq demo_se_env [1, 2, 3, 4, 5, 6, 7, 8, 9] \<noteq> 0
   \<and> se_record demo_se_env 1 0 False (demo_entry\<lparr>en_parsed := True, en_topicSize := 2\<rparr>)
         (se_idSeq demo_se_env [1, 2, 3, 4, 5, 6, 7, 8, 9])
       = ([1, 2, 3, 4, 5, 6, 7, 8, 9], 0, [42],
          demo_entry\<lparr>en_parsed := True, en_topicSize := 2, en_seq := 5, en_expiresAt := 0, en_valueSize := 1,
                     en_cacheEntry := replicate 13 0\<rparr>)
   \<and> se_marshalEntry demo_se_env
         (demo_entry\<lparr>en_parsed := True, en_topicSize := 2, en_seq := 5, en_expiresAt := 0, en_valueSize := 1,
                     en_cacheEntry := replicate 13 0\<rparr>) = Inr [5]
   \<and> length [5::byte] = unat (1::u32)
   \<and> length (se_prefix demo_se_env [1, 2, 3, 4, 5, 6, 7, 8, 9]
               (en_Contract (demo_entry\<lparr>en_parsed := True, en_topicSize := 2\<rparr>))) = unat idSize
   \<and> unat (1::u32) + unat idSize + unat (en_topicSize (demo_entry\<lparr>en_parsed := True, en_topicSize := 2\<rparr>))
       + length [42::byte] < 2^32
   \<and> setEntry demo_se_env 1 0 False (demo_entry\<lparr>en_parsed := True, en_topicSize := 2\<rparr>) demo_udb
       = (None, demo_entry\<lparr>en_parsed := True, en_topicSize := 2, en_seq := 5, en_expiresAt := 0, en_valueSize := 1,
                     en_cacheEntry := [5, 1, 2, 3, 4, 5, 6, 7, 8, 0, 0, 0, 42]\<rparr>, demo_udb)"
proof -
  have h: "en_parsed (demo_entry\<lparr>en_parsed := True, en_topicSize := 2\<rparr>)"
    "en_ID (demo_entry\<lparr>en_parsed := True, en_topicSize := 2\<rparr>) = Some [1, 2, 3, 4, 5, 6, 7, 8, 9]"
    "se_idSeq demo_se_env [1, 2, 3, 4, 5, 6, 7, 8, 9] \<noteq> 0"
    "se_record demo_se_env 1 0 False (demo_entry\<lparr>en_parsed := True, en_topicSize := 2\<rparr>)
         (se_idSeq demo_se_env [1, 2, 3, 4, 5, 6, 7, 8, 9])
       = ([1, 2, 3, 4, 5, 6, 7, 8, 9], 0, [42],
          demo_entry\<lparr>en_parsed := True, en_topicSize := 2, en_seq := 5, en_expiresAt := 0, en_valueSize := 1,
                     en_cacheEntry := replicate 13 0\<rparr>)"
    "se_marshalEntry demo_se_env
         (demo_entry\<lparr>en_parsed := True, en_topicSize := 2, en_seq := 5, en_expiresAt := 0, en_valueSize := 1,
                     en_cacheEntry := replicate 13 0\<rparr>) = Inr [5]"
    "length [5::byte] = unat (1::u32)"
    "length (se_prefix demo_se_env [1, 2, 3, 4, 5, 6, 7, 8, 9]
               (en_Contract (demo_entry\<lparr>en_parsed := True, en_topicSize := 2\<rparr>))) = unat idSize"
    "unat (1::u32) + unat idSize + unat (en_topicSize (demo_entry\<lparr>en_parsed := True, en_topicSize := 2\<rparr>))
       + length [42::byte] < 2^32"
    by (simp_all add: demo_se_env_def demo_entry_def se_record_def idSize_def Let_def)
  have u: "unat (2::u16) = 2" "replicate 2 (0::byte) = [0, 0]" by (simp, simp add: numeral_2_eq_2)
  have c: "setEntry demo_se_env 1 0 False (demo_entry\<lparr>en_parsed := True, en_topicSize := 2\<rparr>) demo_udb
       = (None, demo_entry\<lparr>en_parsed := True, en_topicSize := 2, en_seq := 5, en_expiresAt := 0, en_valueSize := 1,
                     en_cacheEntry := [5, 1, 2, 3, 4, 5, 6, 7, 8, 0, 0, 0, 42]\<rparr>, demo_udb)"
    by (subst setEntry_reparsed_zero_topic [OF h, of demo_udb]) (simp add: demo_entry_def demo_se_env_def u)
  show ?thesis by (intro conjI h c)
qed

theorem setEntry_new_topic_witness:
  "\<not> en_parsed demo_entry
   \<and> en_Contract demo_entry \<noteq> 0
   \<and> se_parse demo_se_env (en_Contract demo_entry) (en_Topic demo_entry) = Some [65, 66]
   \<and> \<not> se_trieHas demo_se_env (se_hash demo_se_env [65, 66] (en_Contract demo_entry))
   \<and> en_ID demo_entry = Some [1, 2, 3, 4, 5, 6, 7, 8, 9]
   \<and> se_idSeq demo_se_env [1, 2, 3, 4, 5, 6, 7, 8, 9] \<noteq> 0
   \<and> length (se_marshalTopic demo_se_env [65, 66]) < 2^16
   \<and> se_record demo_se_env 1 0 False (snd (snd (se_parseEntry demo_se_env demo_entry))) (se_idSeq demo_se_env [1, 2, 3, 4, 5, 6, 7, 8, 9])
     = ([1, 2, 3, 4, 5, 6, 7, 8, 9], 0, [42], demo_entry\<lparr>en_topicHash := 7, en_topicSize := 2, en_parsed := True, en_seq := 5, en_expiresAt := 0, en_valueSize := 1, en_cacheEntry := replicate 13 0\<rparr>)
   \<and> se_marshalEntry demo_se_env (demo_entry\<lparr>en_topicHash := 7, en_topicSize := 2, en_parsed := True, en_seq := 5, en_expiresAt := 0, en_valueSize := 1, en_cacheEntry := replicate 13 0\<rparr>) = Inr [5]
   \<and> length [5::byte] = unat (1::u32)
   \<and> length (se_prefix demo_se_env [1, 2, 3, 4, 5, 6, 7, 8, 9] (en_Contract demo_entry)) = unat idSize
   \<and> unat (1::u32) + unat idSize + length (se_marshalTopic demo_se_env [65, 66]) + length [42::byte] < 2^32
   \<and> setEntry demo_se_env 1 0 False demo_entry demo_udb = (None, demo_entry\<lparr>en_topicHash := 7, en_topicSize := 2, en_parsed := True, en_seq := 5, en_expiresAt := 0, en_valueSize := 1, en_cacheEntry := [5, 1, 2, 3, 4, 5, 6, 7, 8, 0, 65, 66, 42]\<rparr>, demo_udb)"
proof -
  have h: "\<not> en_parsed demo_entry"
    "en_Contract demo_entry \<noteq> 0"
    "se_parse demo_se_env (en_Contract demo_entry) (en_Topic demo_entry) = Some [65, 66]"
    "\<not> se_trieHas demo_se_env (se_hash demo_se_env [65, 66] (en_Contract demo_entry))"
    "en_ID demo_entry = Some [1, 2, 3, 4, 5, 6, 7, 8, 9]"
    "se_idSeq demo_se_env [1, 2, 3, 4, 5, 6, 7, 8, 9] \<noteq> 0"
    "length (se_marshalTopic demo_se_env [65, 66]) < 2^16"
    "se_record demo_se_env 1 0 False (snd (snd (se_parseEntry demo_se_env demo_entry))) (se_idSeq demo_se_env [1, 2, 3, 4, 5, 6, 7, 8, 9])
     = ([1, 2, 3, 4, 5, 6, 7, 8, 9], 0, [42], demo_entry\<lparr>en_topicHash := 7, en_topicSize := 2, en_parsed := True, en_seq := 5, en_expiresAt := 0, en_valueSize := 1, en_cacheEntry := replicate 13 0\<rparr>)"
    "se_marshalEntry demo_se_env (demo_entry\<lparr>en_topicHash := 7, en_topicSize := 2, en_parsed := True, en_seq := 5, en_expiresAt := 0, en_valueSize := 1, en_cacheEntry := replicate 13 0\<rparr>) = Inr [5]"
    "length [5::byte] = unat (1::u32)"
    "length (se_prefix demo_se_env [1, 2, 3, 4, 5, 6, 7, 8, 9] (en_Contract demo_entry)) = unat idSize"
    "unat (1::u32) + unat idSize + length (se_marshalTopic demo_se_env [65, 66]) + length [42::byte] < 2^32"
    by (simp_all add: demo_se_env_def demo_entry_def se_parseEntry_def parseTopic_def se_record_def
          idSize_def Let_def)
  have c: "setEntry demo_se_env 1 0 False demo_entry demo_udb = (None, demo_entry\<lparr>en_topicHash := 7, en_topicSize := 2, en_parsed := True, en_seq := 5, en_expiresAt := 0, en_valueSize := 1, en_cacheEntry := [5, 1, 2, 3, 4, 5, 6, 7, 8, 0, 65, 66, 42]\<rparr>, demo_udb)"
    by (subst setEntry_new_topic [OF h]) (simp add: demo_entry_def demo_se_env_def)
  show ?thesis by (intro conjI h c)
qed

end
