(* ===== verification/LoadTrie.thy ===== *)
theory LoadTrie
  imports DbEntry
begin

text \<open>
  \<open>DB.loadTrie\<close> (\<open>db_internal.go\<close>, lines 121--180) rebuilds the topic trie
  when the store opens.  It walks every window block through
  \<open>timeWindow.foreachWindowBlock\<close>, records the offset of the first block it
  meets for each topic hash, and at the last block of a topic's chain reads the
  index slot of the chain's first sequence, reads and parses the topic stored
  with it, and adds the topic to the trie with the recorded offset.  The window
  file, the topic store and the trie are not in the sources: the window blocks
  are a list of \<open>windowHandle\<close>s in the order \<open>foreachWindowBlock\<close> visits
  them (which stops when the callback asks to), the index blocks are read
  through the environment \<open>de_env\<close> of \<open>DbEntry\<close> and scanned with its
  \<open>scan_slots\<close>, the topic reader and parser are \<open>lt_env\<close>, and the trie is a
  map from topic hashes to their offset and parsed topic whose \<open>add\<close> refuses
  a hash it already has.
\<close>

record windowHandle =
  wh_topicHash :: u64
  wh_offset :: i64
  wh_entryIdx :: nat
  wh_next :: i64
  wh_firstSeq :: u64

record 't lt_env =
  lt_readTopic :: "index_slot \<Rightarrow> go_error + byte list"
  lt_unmarshal :: "byte list \<Rightarrow> go_error + 't"

type_synonym 't trie = "u64 \<rightharpoonup> i64 \<times> 't"

definition io_EOF :: go_error where
  "io_EOF = GoErr ''EOF''"

definition trie_add :: "u64 \<Rightarrow> i64 \<Rightarrow> 't \<Rightarrow> 't trie \<Rightarrow> 't trie option" where
  "trie_add h off t tr = (if tr h = None then Some (tr(h \<mapsto> (off, t))) else None)"

text \<open>\<open>timeWindow.foreachWindowBlock\<close>: the callback answers whether to stop and with which error.\<close>

fun foreach_window :: "(windowHandle \<Rightarrow> 's \<Rightarrow> (bool \<times> go_error option) \<times> 's) \<Rightarrow> windowHandle list \<Rightarrow> 's
                       \<Rightarrow> go_error option \<times> 's" where
  "foreach_window f [] st = (None, st)"
| "foreach_window f (w # ws) st =
     (let ((stop, err), st') = f w st in if stop then (err, st') else foreach_window f ws st')"

text \<open>
  The callback of \<open>loadTrie\<close>, over the local map \<open>topics\<close> and the trie.  A
  read error \<open>io.EOF\<close> skips the block; any other error stops the walk.  A
  topic the trie already holds is skipped (the code only logs it).
\<close>

definition loadTrie_cb :: "de_env \<Rightarrow> 't lt_env \<Rightarrow> windowHandle \<Rightarrow> (u64 \<rightharpoonup> i64) \<times> 't trie
                           \<Rightarrow> (bool \<times> go_error option) \<times> (u64 \<rightharpoonup> i64) \<times> 't trie" where
  "loadTrie_cb env lenv w st =
     (let (topics, tr) = st in
      if wh_entryIdx w = 0 then ((False, None), topics, tr)
      else
        let topics = (if topics (wh_topicHash w) = None then topics(wh_topicHash w \<mapsto> wh_offset w) else topics)
        in if wh_next w \<noteq> 0 then ((False, None), topics, tr)
        else
          case de_blockRead env (de_blockOffset env (de_startBlockIndex env (wh_firstSeq w))) of
            Inl err \<Rightarrow> (if err = io_EOF then ((False, None), topics, tr) else ((True, Some err), topics, tr))
          | Inr entries \<Rightarrow>
              (case scan_slots (wh_firstSeq w) entries 0 of
                 None \<Rightarrow> ((False, None), topics, tr)
               | Some s \<Rightarrow>
                   if ix_topicSize s = 0 then ((False, None), topics, tr)
                   else case lt_readTopic lenv s of
                          Inl err \<Rightarrow> ((True, Some err), topics, tr)
                        | Inr raw \<Rightarrow>
                            (case lt_unmarshal lenv raw of
                               Inl err \<Rightarrow> ((True, Some err), topics, tr)
                             | Inr t \<Rightarrow>
                                 (case trie_add (wh_topicHash w) (the (topics (wh_topicHash w))) t tr of
                                    None \<Rightarrow> ((False, None), topics, tr)
                                  | Some tr' \<Rightarrow> ((False, None), topics, tr')))))"

definition loadTrie :: "de_env \<Rightarrow> 't lt_env \<Rightarrow> windowHandle list \<Rightarrow> 't trie \<Rightarrow> go_error option \<times> 't trie" where
  "loadTrie env lenv ws tr =
     (let (err, _, tr') = foreach_window (loadTrie_cb env lenv) ws (Map.empty, tr) in (err, tr'))"

text \<open>The offset of the first block of each topic among the non-empty window blocks.\<close>

definition first_offsets :: "windowHandle list \<Rightarrow> u64 \<rightharpoonup> i64" where
  "first_offsets ws = map_of [(wh_topicHash w, wh_offset w). w \<leftarrow> ws, wh_entryIdx w \<noteq> 0]"


text \<open>
  The invariant of the walk: every topic in the trie was added with the offset
  \<open>topics\<close> holds for it.  The examples: one topic whose chain has two blocks,
  the head at offset 100 and the last block at offset 50, and an index block
  whose slots all carry a stored topic.
\<close>

definition trie_in_topics :: "(u64 \<rightharpoonup> i64) \<Rightarrow> 't trie \<Rightarrow> bool" where
  "trie_in_topics topics tr \<longleftrightarrow> (\<forall>h off t. tr h = Some (off, t) \<longrightarrow> topics h = Some off)"

definition demo_lt_env :: "nat lt_env" where
  "demo_lt_env = \<lparr>lt_readTopic = (\<lambda>_. Inr [1]), lt_unmarshal = (\<lambda>_. Inr 5)\<rparr>"

definition demo_windows :: "windowHandle list" where
  "demo_windows =
     [\<lparr>wh_topicHash = 3, wh_offset = 100, wh_entryIdx = 1, wh_next = 50, wh_firstSeq = 0\<rparr>,
      \<lparr>wh_topicHash = 3, wh_offset = 50, wh_entryIdx = 1, wh_next = 0, wh_firstSeq = 0\<rparr>]"

definition demo_topic_env :: de_env where
  "demo_topic_env = demo_de_env\<lparr>de_blockRead := (\<lambda>_. Inr (replicate entriesPerIndexBlock (slot_zero\<lparr>ix_topicSize := 1\<rparr>)))\<rparr>"

subsection \<open>The trie gets the offset of each topic's first block\<close>

text \<open>
  \<open>topics\<close> grows by the first offset of each new non-empty block, the trie only
  by topics \<open>topics\<close> holds, so after the walk, even one stopped by an error,
  every topic of the trie carries the offset of the first non-empty window block
  of its hash.
\<close>

lemma first_offsets_append: "first_offsets (xs @ ys) = first_offsets ys ++ first_offsets xs"
  by (simp add: first_offsets_def)

lemma first_offsets_single:
  "first_offsets [w] ++ topics
     = (if wh_entryIdx w \<noteq> 0 \<and> topics (wh_topicHash w) = None then topics(wh_topicHash w \<mapsto> wh_offset w) else topics)"
  by (auto simp: first_offsets_def map_add_def fun_eq_iff split: option.split)

lemma loadTrie_cb_topics:
  "loadTrie_cb env lenv w (topics, tr) = (r, topics1, tr1) \<Longrightarrow> topics1 = first_offsets [w] ++ topics"
  unfolding first_offsets_single
  by (auto simp: loadTrie_cb_def Let_def split: if_splits sum.splits option.splits)

lemma loadTrie_cb_inv:
  assumes "loadTrie_cb env lenv w (topics, tr) = (r, topics1, tr1)" "trie_in_topics topics tr"
  shows "trie_in_topics topics1 tr1"
  using assms by (auto simp: loadTrie_cb_def trie_in_topics_def trie_add_def Let_def
                        split: if_splits sum.splits option.splits)

lemma foreach_loadTrie:
  "foreach_window (loadTrie_cb env lenv) ws (topics, tr) = (err, topics', tr') \<Longrightarrow> trie_in_topics topics tr \<Longrightarrow>
   trie_in_topics topics' tr' \<and> (\<exists>n. topics' = first_offsets (take n ws) ++ topics)"
proof (induction ws arbitrary: topics tr)
  case Nil
  then show ?case by (auto intro: exI [of _ 0] simp: first_offsets_def)
next
  case (Cons w ws)
  obtain stop e1 topics1 tr1 where cb: "loadTrie_cb env lenv w (topics, tr) = ((stop, e1), topics1, tr1)"
    by (metis prod.exhaust)
  have t1: "topics1 = first_offsets [w] ++ topics" by (rule loadTrie_cb_topics [OF cb])
  have i1: "trie_in_topics topics1 tr1" by (rule loadTrie_cb_inv [OF cb Cons.prems(2)])
  show ?case
  proof (cases stop)
    case True
    then have "topics' = topics1" "tr' = tr1" using Cons.prems(1) cb by simp_all
    then show ?thesis using i1 t1 by (auto intro: exI [of _ 1])
  next
    case False
    then have r: "foreach_window (loadTrie_cb env lenv) ws (topics1, tr1) = (err, topics', tr')"
      using Cons.prems(1) cb by simp
    obtain n where "trie_in_topics topics' tr'" "topics' = first_offsets (take n ws) ++ topics1"
      using Cons.IH [OF r i1] by blast
    then show ?thesis using t1
      by (auto intro!: exI [of _ "Suc n"] simp: first_offsets_append [of "[w]", simplified, symmetric])
  qed
qed

lemma find_replicate: "find P (replicate n x) = (if n = 0 \<or> \<not> P x then None else Some x)"
  by (induction n) auto

text \<open>C13: After loadTrie walks the window blocks from an empty trie, even when an error stops the walk, every topic in the trie carries the offset of the first non-empty window block of its hash.\<close>

theorem loadTrie_first_offset:
  assumes "loadTrie env lenv ws Map.empty = (err, tr)" "tr h = Some (off, t)"
  shows "first_offsets ws h = Some off"
proof -
  obtain topics' where f: "foreach_window (loadTrie_cb env lenv) ws (Map.empty, Map.empty) = (err, topics', tr)"
    using assms(1) by (auto simp: loadTrie_def split: prod.splits)
  have "trie_in_topics (Map.empty :: u64 \<rightharpoonup> i64) (Map.empty :: 'a trie)" by (simp add: trie_in_topics_def)
  then obtain n where i: "trie_in_topics topics' tr" and n: "topics' = first_offsets (take n ws)"
    using foreach_loadTrie [OF f] by auto
  have "first_offsets (take n ws) h = Some off" using i n assms(2) by (simp add: trie_in_topics_def)
  then show ?thesis
    using first_offsets_append [of "take n ws" "drop n ws"] by (simp add: map_add_Some_iff)
qed

theorem loadTrie_first_offset_witness:
  "loadTrie demo_topic_env demo_lt_env demo_windows Map.empty = (None, [3 \<mapsto> (100, 5)])
   \<and> [3 \<mapsto> (100, 5)] (3::u64) = Some (100::i64, 5::nat)
   \<and> first_offsets demo_windows 3 = Some 100"
proof -
  have s: "scan_slots 0 (replicate entriesPerIndexBlock (slot_zero\<lparr>ix_topicSize := 1\<rparr>)) 0 = Some (slot_zero\<lparr>ix_topicSize := 1\<rparr>)"
    by (simp add: scan_slots_find find_replicate entriesPerIndexBlock_def slot_zero_def)
  have h: "loadTrie demo_topic_env demo_lt_env demo_windows Map.empty = (None, [3 \<mapsto> (100, 5)])"
    "[3 \<mapsto> (100, 5)] (3::u64) = Some (100::i64, 5::nat)"
    by (simp_all add: loadTrie_def loadTrie_cb_def demo_windows_def demo_topic_env_def demo_de_env_def
          demo_lt_env_def trie_add_def s Let_def)
  have "first_offsets demo_windows 3 = Some 100" by (rule loadTrie_first_offset [OF h])
  then show ?thesis using h by simp
qed

end
