(* ===== verification/MemdbAux.thy ===== *)
theory MemdbAux
  imports Memdb
begin

text \<open>
  The smaller operations of the memdb (\<open>memdb/timelock.go\<close>, second file):
  \<open>blockID\<close> and \<open>addTimeBlock\<close>, which keep a Bloom filter per block of keys
  and a filter snapshot per TimeID; \<open>newBatchPool\<close>; \<open>batch\<close>, which opens a
  user batch on a TimeID taken from the clock and registers it with the
  Time-Mark; and \<open>ok\<close>.  The consistent hash is the argument \<open>fb\<close>; the Bloom
  filter (not in the sources) is the list of keys appended to its generator, and
  a filter block is a copy of that list; the batch pool's goroutines and
  channels are not modelled, only the pool's size.
\<close>

record blockRecord =
  br_timeRecords :: "timeID \<rightharpoonup> u64 list"
  br_filter :: "u64 list"

text \<open>\<open>blockID\<close>: the consistent hash's \<open>int\<close> converted to \<open>_BlockKey\<close>, a \<open>uint16\<close>.\<close>

definition blockID :: "(u64 \<Rightarrow> nat) \<Rightarrow> u64 \<Rightarrow> 16 word" where
  "blockID fb k = word_of_nat (fb k)"

text \<open>
  \<open>addTimeBlock\<close>: for a block the store knows, give the TimeID a filter block
  (a snapshot of the generator) the first time it is seen, then append the key
  to the generator.  An unknown block is ignored; the error is always nil.
\<close>

definition addTimeBlock :: "(u64 \<Rightarrow> nat) \<Rightarrow> timeID \<Rightarrow> u64 \<Rightarrow> (16 word \<rightharpoonup> blockRecord)
                           \<Rightarrow> go_error option \<times> (16 word \<rightharpoonup> blockRecord)" where
  "addTimeBlock fb timeID k timeBlocks =
     (let blockKey = blockID fb k in
      case timeBlocks blockKey of
        None \<Rightarrow> (None, timeBlocks)
      | Some r \<Rightarrow>
          let r1 = (if br_timeRecords r timeID = None
                    then r\<lparr>br_timeRecords := (br_timeRecords r)(timeID \<mapsto> br_filter r)\<rparr> else r)
          in (None, timeBlocks(blockKey \<mapsto> r1\<lparr>br_filter := br_filter r1 @ [k]\<rparr>)))"

text \<open>\<open>newBatchPool\<close>: at least one batch worker.\<close>

definition newBatchPool :: "int \<Rightarrow> int" where
  "newBatchPool maxBatches = (if maxBatches < 1 then 1 else maxBatches)"

text \<open>
  \<open>DB.batch\<close>: the batch's tiny batch takes the clock reading \<open>now\<close> as its
  TimeID, which is added to the Time-Mark.  The tiny batch is not managed.
\<close>

definition mdb_batch :: "i64 \<Rightarrow> mdb \<Rightarrow> tinyBatch \<times> mdb" where
  "mdb_batch now db =
     (\<lparr>tb_ID = now, tb_len = 0, tb_managed = False, tb_done = False\<rparr>,
      db\<lparr>m_timeMark := add now (m_timeMark db)\<rparr>)"

definition mdb_ok :: "mdb \<Rightarrow> go_error option" where
  "mdb_ok db = (if isClosed db then Some (GoErr ''db is closed'') else None)"

text \<open>The keys of one TimeID added in order, as the writes of a tiny batch do.\<close>

fun addTimeBlocks :: "(u64 \<Rightarrow> nat) \<Rightarrow> timeID \<Rightarrow> u64 list \<Rightarrow> (16 word \<rightharpoonup> blockRecord) \<Rightarrow> (16 word \<rightharpoonup> blockRecord)" where
  "addTimeBlocks fb t [] tb = tb"
| "addTimeBlocks fb t (k # ks) tb = addTimeBlocks fb t ks (snd (addTimeBlock fb t k tb))"

subsection \<open>The filter block of a TimeID\<close>

text \<open>
  The filter block a TimeID gets is the generator's content before its first
  key; the keys of that TimeID go only into the generator.  So for keys new to
  the block, the TimeID's filter block contains none of them.
\<close>

lemma addTimeBlocks_same_block:
  assumes "tb (blockID fb kb) = Some r" "\<forall>k \<in> set ks. blockID fb k = blockID fb kb"
  shows "\<exists>r'. addTimeBlocks fb t ks tb = tb(blockID fb kb \<mapsto> r')
           \<and> br_filter r' = br_filter r @ ks
           \<and> br_timeRecords r' t = (if ks = [] then br_timeRecords r t
                                     else case br_timeRecords r t of None \<Rightarrow> Some (br_filter r) | Some f \<Rightarrow> Some f)"
  using assms
proof (induction ks arbitrary: tb r)
  case Nil
  then show ?case by (auto intro!: exI [of _ r] simp: fun_upd_idem)
next
  case (Cons k ks)
  let ?r1 = "(if br_timeRecords r t = None then r\<lparr>br_timeRecords := (br_timeRecords r)(t \<mapsto> br_filter r)\<rparr> else r)
             \<lparr>br_filter := br_filter r @ [k]\<rparr>"
  have s: "snd (addTimeBlock fb t k tb) = tb(blockID fb kb \<mapsto> ?r1)"
    using Cons.prems by (simp add: addTimeBlock_def Let_def)
  have p1: "(tb(blockID fb kb \<mapsto> ?r1)) (blockID fb kb) = Some ?r1" by simp
  have p2: "\<forall>k \<in> set ks. blockID fb k = blockID fb kb" using Cons.prems(2) by simp
  note Cons.IH [of "tb(blockID fb kb \<mapsto> ?r1)" ?r1, OF p1 p2]
  then obtain r' where r': "addTimeBlocks fb t ks (tb(blockID fb kb \<mapsto> ?r1)) = (tb(blockID fb kb \<mapsto> ?r1))(blockID fb kb \<mapsto> r')"
      "br_filter r' = br_filter ?r1 @ ks"
      "br_timeRecords r' t = (if ks = [] then br_timeRecords ?r1 t
                              else case br_timeRecords ?r1 t of None \<Rightarrow> Some (br_filter ?r1) | Some f \<Rightarrow> Some f)"
    by blast
  show ?case using r' s by (auto split: option.splits)
qed

theorem filter_block_misses_own_keys:
  assumes "tb (blockID fb kb) = Some r" "br_timeRecords r t = None"
    and "\<forall>k \<in> set ks. blockID fb k = blockID fb kb" "set ks \<inter> set (br_filter r) = {}" "ks \<noteq> []"
  shows "\<exists>r' f. addTimeBlocks fb t ks tb (blockID fb kb) = Some r' \<and> br_timeRecords r' t = Some f
           \<and> set ks \<inter> set f = {} \<and> set ks \<subseteq> set (br_filter r')"
  using addTimeBlocks_same_block [where tb = tb and fb = fb and kb = kb and r = r and ks = ks and t = t] assms by auto

lemma newBatchPool_positive: "1 \<le> newBatchPool m"
  by (simp add: newBatchPool_def)

lemma mdb_ok_closed: "mdb_ok db = (if m_closed db \<noteq> 0 then Some (GoErr ''db is closed'') else None)"
  by (simp add: mdb_ok_def isClosed_def)

subsection \<open>A batch and a tiny batch on the same clock reading\<close>

text \<open>
  \<open>newTinyBatch\<close> and \<open>batch\<close> both take their TimeID from the clock.  When
  they read the same nanosecond they share a TimeID, and since \<open>add\<close> stores
  a count of 1 instead of incrementing it, the one \<open>release\<close> of the tiny
  batch's commit removes the live record while the user batch is still open.
\<close>

text \<open>C36: When newTinyBatch and batch read the same clock value they share a TimeID; the Time-Mark then holds it with count 1, and the single release of the tiny batch commit removes the live record while the user batch is still open.\<close>

theorem batch_shares_timeID_released:
  assumes "records (m_timeMark db) now = None"
    and "newTinyBatch now db = (tb, db1)" "mdb_batch now db1 = (b, db2)"
  shows "tb_ID b = tb_ID tb \<and> records (m_timeMark db2) now = Some \<lparr>refs = 1, lastUnref = 0\<rparr>
         \<and> records (release (tb_ID tb) (m_timeMark db2)) (tb_ID b) = None"
  using assms by (auto simp: newTinyBatch_def mdb_batch_def newTimeID_def add_def release_def Let_def)

theorem batch_shares_timeID_released_witness:
  "records (m_timeMark demo_db) 9 = None
   \<and> newTinyBatch 9 demo_db = (\<lparr>tb_ID = 9, tb_len = 0, tb_managed = False, tb_done = False\<rparr>, demo_db\<lparr>m_timeMark := add 9 (m_timeMark demo_db)\<rparr>)
   \<and> mdb_batch 9 (demo_db\<lparr>m_timeMark := add 9 (m_timeMark demo_db)\<rparr>) = (\<lparr>tb_ID = 9, tb_len = 0, tb_managed = False, tb_done = False\<rparr>, demo_db\<lparr>m_timeMark := add 9 (add 9 (m_timeMark demo_db))\<rparr>)
   \<and> tb_ID \<lparr>tb_ID = 9, tb_len = 0, tb_managed = False, tb_done = False\<rparr> = tb_ID \<lparr>tb_ID = 9, tb_len = 0, tb_managed = False, tb_done = False\<rparr>
   \<and> records (m_timeMark (demo_db\<lparr>m_timeMark := add 9 (add 9 (m_timeMark demo_db))\<rparr>)) 9 = Some \<lparr>refs = 1, lastUnref = 0\<rparr>
   \<and> records (release (tb_ID \<lparr>tb_ID = 9, tb_len = 0, tb_managed = False, tb_done = False\<rparr>) (m_timeMark (demo_db\<lparr>m_timeMark := add 9 (add 9 (m_timeMark demo_db))\<rparr>))) (tb_ID \<lparr>tb_ID = 9, tb_len = 0, tb_managed = False, tb_done = False\<rparr>) = None"
proof -
  have h: "records (m_timeMark demo_db) 9 = None"
    "newTinyBatch 9 demo_db = (\<lparr>tb_ID = 9, tb_len = 0, tb_managed = False, tb_done = False\<rparr>, demo_db\<lparr>m_timeMark := add 9 (m_timeMark demo_db)\<rparr>)"
    "mdb_batch 9 (demo_db\<lparr>m_timeMark := add 9 (m_timeMark demo_db)\<rparr>) = (\<lparr>tb_ID = 9, tb_len = 0, tb_managed = False, tb_done = False\<rparr>, demo_db\<lparr>m_timeMark := add 9 (add 9 (m_timeMark demo_db))\<rparr>)"
    by (simp_all add: demo_db_def newTimeID_def newTimeMark_def add_def newTinyBatch_def mdb_batch_def)
  have c: "tb_ID \<lparr>tb_ID = 9, tb_len = 0, tb_managed = False, tb_done = False\<rparr> = tb_ID \<lparr>tb_ID = 9, tb_len = 0, tb_managed = False, tb_done = False\<rparr>
     \<and> records (m_timeMark (demo_db\<lparr>m_timeMark := add 9 (add 9 (m_timeMark demo_db))\<rparr>)) 9 = Some \<lparr>refs = 1, lastUnref = 0\<rparr>
     \<and> records (release (tb_ID \<lparr>tb_ID = 9, tb_len = 0, tb_managed = False, tb_done = False\<rparr>) (m_timeMark (demo_db\<lparr>m_timeMark := add 9 (add 9 (m_timeMark demo_db))\<rparr>))) (tb_ID \<lparr>tb_ID = 9, tb_len = 0, tb_managed = False, tb_done = False\<rparr>) = None"
    by (rule batch_shares_timeID_released [OF h])
  show ?thesis using h c by (intro conjI) blast+
qed

end
