(* ===== verification/Spec2Isabelle.thy ===== *)
theory Spec2Isabelle
  imports Memdb DbIndex Options WalRead Iterator FileCopy WalFileIO TraceMmap WinLock EntryLayout TimeLock Metrics DbEntry SetEntry LoadTrie MemdbAux
begin

text \<open>
  \<^bold>\<open>A verification development of unitdb.\<close>
  unitdb is a time-series message store written in Go.  Writes go first to an
  in-memory staging store (the \<^emph>\<open>memdb\<close>), which is flushed in tiny batches
  to a write-ahead log (WAL).  After a crash the WAL is replayed into the memdb.
  This development models in Isabelle/HOL the parts of that pipeline that are in
  the sources (\<open>src/\<close>), and proves what makes them correct.  It also proves
  where they are not.

  \<^medskip>\<^bold>\<open>How the parts interact.\<close>
  A \<open>Put\<close> or a \<open>delete\<close> appends a framed record to the block of the current
  tiny batch.  The tiny-batch loop hands a non-empty batch to \<open>tinyCommit\<close>.
  \<open>tinyCommit\<close> calls \<open>tinyWrite\<close>, which copies the block's records into
  one WAL group, and then releases the batch's TimeID in the Time-Mark.  The WAL
  stores groups in a file whose free space is three segments.  Each group has a
  28-byte log-info header, and the file has a 47-byte header.  On recovery,
  \<open>Reader.Next\<close> walks the frames of each written group, and
  \<open>startRecover\<close> replays them into a map from keys to values.
  \<open>releaseLog\<close> later moves deletion markers, drops the block and marks the
  group applied.

  \<^medskip>\<^bold>\<open>Theories, and the code each one models.\<close>
  \<^item> \<open>Prelude\<close>: machine words for the Go integer types (\<open>u32\<close>, \<open>i64\<close>,
    \<dots>); the little-endian codec of \<open>encoding/binary\<close> with both round-trip
    laws; Go slicing as an option; the record frame
    \<open>| u32 len | bytes |\<close>; Go errors (\<open>go_error\<close>); the unitdb error values
    of \<open>unnamed/part_003\<close> (\<open>db_error\<close>).
  \<^item> \<open>Segments\<close>: the segmented log file \<open>wal/file.go\<close>
    (\<open>unnamed/part_001\<close>).  The records \<open>segment\<close>, \<open>segments\<close> and
    \<open>wal_file\<close> are the Go structs.  \<open>seg_allocate\<close>, \<open>seg_free\<close>,
    \<open>seg_swap\<close>, \<open>file_allocate\<close> and \<open>file_truncate\<close> are the methods, each
    taking and returning the state.  The abstraction \<open>free_space\<close> (a set of
    byte offsets) gives the refinement lemmas: allocation removes exactly the
    returned block, \<open>free\<close> adds exactly the freed block, and \<open>swap\<close> never
    frees a used byte.  A closed theorem shows that \<open>swap\<close> loses segment 2.
  \<^item> \<open>LogHeader\<close>: \<open>wal/header.go\<close>.  Marshal and unmarshal of the two
    headers are inverse both ways.
  \<^item> \<open>WalReader\<close>: \<open>wal/reader.go\<close>.  \<open>reader_next\<close> is \<open>Reader.Next\<close>.
    \<open>read_entries\<close> is the caller's loop of \<open>Count\<close> calls.
    \<open>release_loop\<close> is the in-place removal of released logs.  The round trip
    says that reading the frames the writer lays out returns the payloads in
    order.  Torn and short records are error and panic branches.
  \<^item> \<open>TimeMark\<close>: \<open>memdb/timemark.go\<close>, every method as a step of one state
    record.  \<open>tm_step\<close>/\<open>tm_run\<close> sequence them, and \<open>tm_inv\<close> is the
    reference-count invariant that every step keeps.
  \<^item> \<open>MemTable\<close>: the byte slab of the memdb and the key-value table of
    \<open>unnamed/part_002\<close> (\<open>Set\<close>, \<open>Get\<close>, \<open>Count\<close>, \<open>Close\<close>,
    \<open>FileSize\<close>).  Every \<open>Set\<close>, even a failed one, grows the slab by its
    frame; \<open>Close\<close> leaves the closer open when an earlier step fails.
  \<^item> \<open>Memdb\<close>: \<open>memdb/timelock.go\<close> from line 49.  It models \<open>_Block.put\<close>
    (\<open>block_put\<close>), \<open>delete\<close>, \<open>move\<close>, \<open>tinyWrite\<close>, \<open>tinyCommit\<close>,
    \<open>startRecover\<close> (a panic propagates, other errors of \<open>r.Read\<close> are
    dropped), \<open>releaseLog\<close>, one tick of \<open>tinyBatchLoop\<close>,
    \<open>setClosed\<close> and \<open>close\<close>, over the state record \<open>mdb\<close>.  The block
    invariant \<open>block_wf\<close> says that every map entry points at an intact framed
    record.  The lemmas give its preservation, the meaning of a block
    (\<open>blk_view\<close>), the replay of a written group, and the release paths.
  \<^item> \<open>WalRead\<close>: the buffered recovery scan of \<open>Reader.Read\<close>
    (\<open>wal/reader.go\<close>, lines 67--137).  \<open>scan_pass\<close> is the inner loop
    over the logs, \<open>read_scan\<close> the outer loop that refills the window, and
    \<open>reader_read\<close> the whole method.  The file, the free segments and the
    callback form the environment \<open>rd_env\<close>.  \<open>read_scan\<close> is a
    \<open>function\<close>; its termination measure counts the logs left, and one more
    while the window is smaller than the next log.  A closed theorem shows that
    a log larger than the window is read from a stale file offset.
  \<^item> \<open>DbCore\<close>: \<open>db_internal.go\<close>.  The records \<open>dbInfo\<close> and \<open>udb\<close>
    hold the counters, the tiny-batch buffer and the WAL as a list of groups.
    It models the counters (\<open>seq\<close>, \<open>nextSeq\<close>, \<open>incount\<close>, ...),
    \<open>setEntry\<close>'s sequence choice (\<open>assign_seq\<close>), \<open>tinyCommit\<close>,
    \<open>commit\<close> with its frame-splitting loop (\<open>frames_loop\<close>), \<open>close\<close>, and
    \<open>lookup\<close> over a time-window lookup passed as a function.  The lemmas give
    the commit round trip, the wrap-around of the 64-bit counters, and the
    limit that \<open>lookup\<close> keeps.
  \<^item> \<open>DbIndex\<close>: the database's index file (\<open>db_internal.go\<close>):
    \<open>writeHeader\<close>, \<open>readHeader\<close>, \<open>newBlock\<close> and \<open>extendBlocks\<close>,
    composed from \<open>DbCore\<close>'s counters and \<open>TraceFile\<close>'s file helper.
    The lemmas give the header round trip (without \<open>logSequence\<close>), and show
    that \<open>newBlock\<close> counts a block that \<open>extend\<close> failed to add and that
    \<open>extendBlocks\<close> wraps its byte count at \<open>2^32\<close>.
  \<^item> \<open>DbEntry\<close>: \<open>readEntry\<close> and \<open>delete\<close> of \<open>db_internal.go\<close>, over
    the record \<open>de_env\<close> of their collaborators (memdb \<open>Get\<close>/\<open>Remove\<close>,
    index block reader and writer, Bloom filter, block arithmetic, \<open>sync\<close>).
    The slot scan \<open>scan_slots\<close> is a \<open>function\<close> over the slot index with
    measure \<open>255 - i\<close>, and equals \<open>find\<close>.  The lemmas cover every branch:
    cached header, memdb error, index hit, and the zero slot returned without
    error for an absent sequence; a delete decrements the count and frees the
    lease, and its errors change neither.
  \<^item> \<open>EntryLayout\<close>: the cache record that ends \<open>setEntry\<close>
    (\<open>db_internal.go\<close>), built with Go's \<open>copy\<close> in a \<open>uint32\<close>-sized
    buffer; the lemma gives its layout.
  \<^item> \<open>MemdbAux\<close>: the smaller memdb operations (\<open>blockID\<close>,
    \<open>addTimeBlock\<close>, \<open>newBatchPool\<close>, \<open>batch\<close>, \<open>ok\<close>).  The lemmas show
    that a TimeID's filter block misses the TimeID's own new keys, and that a
    user batch and a tiny batch opened in the same nanosecond share a TimeID
    whose record one release removes (composing \<open>Memdb\<close> with \<open>TimeMark\<close>).
  \<^item> \<open>TimeLock\<close>: the time lock of \<open>memdb/timelock.go\<close> (\<open>newTimeLock\<close>,
    \<open>getTimeLock\<close>) and the two methods that take a stripe, \<open>DB.delete\<close>
    (\<open>delete_step\<close>) and a round of \<open>DB.tinyBatchLoop\<close> (\<open>loop_step\<close>),
    one Go statement per step; \<open>tl_step\<close> runs a step of any thread and
    \<open>tl_reach\<close> is reachability.  A \<open>sync.RWMutex\<close> is a writer flag and a
    reader count, without Go's writer preference, which only removes
    interleavings.  By rule induction the mutexes count their holders
    (\<open>tl_inv\<close>); hence a stripe held for writing has no other holder, and
    stripe indices stay in the array when the consistent hash (not in the
    sources) keeps its range below \<open>nLocks\<close>.  A closed run shows a delete whose marker
    goes to one tiny batch's block while its count goes to the next batch.
  \<^item> \<open>Metrics\<close>: the time series of the \<open>metrics\<close> package
    (\<open>unnamed/part_000\<close>): \<open>_TimeSeries\<close> forwards its fourteen readings and
    its updates to a histogram given as operations, and \<open>Snapshot\<close> freezes a
    \<open>TimeSeriesSnapshot\<close> that panics on every update.
  \<^item> \<open>LoadTrie\<close>: \<open>loadTrie\<close> (\<open>db_internal.go\<close>), the rebuild of the topic
    trie at open: a callback \<open>loadTrie_cb\<close> run over the window blocks by
    \<open>foreach_window\<close>, reading index blocks through \<open>DbEntry\<close>'s environment
    and \<open>scan_slots\<close>.  By induction over the blocks, every topic added to the
    trie carries the offset of the first non-empty block of its hash, also when
    an error stops the walk.
  \<^item> \<open>SetEntry\<close>: \<open>parseTopic\<close> and the whole of \<open>setEntry\<close>
    (\<open>db_internal.go\<close>), in stages \<open>se_parseEntry\<close> (parse the topic once),
    \<open>assign_seq\<close> (from \<open>DbCore\<close>), \<open>se_record\<close> (value and buffer) and
    \<open>cache_entry\<close> (from \<open>EntryLayout\<close>), over the record \<open>se_env\<close> of the
    packages that are not in the sources.  The lemmas give the record of a new
    topic end to end, the error of an invalid topic, and show that a second
    \<open>setEntry\<close> of a parsed entry leaves the topic bytes zero.
  \<^item> \<open>Options\<close>: \<open>options.go\<close>, the \<open>Options\<close> struct and
    \<open>copyWithDefaults\<close>.
  \<^item> \<open>Iterator\<close>: \<open>iterator.go\<close>, the \<open>ItemIterator\<close> of the key-value
    store.  \<open>it_next\<close> is \<open>Next\<close>, with its refill loop \<open>fill_loop\<close> (a
    \<open>function\<close> over the 32-bit bucket index, terminating by the distance to
    \<open>nBuckets\<close>) and its bucket callback \<open>bucket_cb\<close>.  The bucket chains
    and \<open>readKeyValue\<close> are the environment \<open>it_env\<close>.  The lemmas show
    that \<open>Next\<close> enumerates the entries of all buckets in order, and three
    defects: an expired entry hides the rest of its bucket handle, the
    documented \<open>Valid\<close> loop stops inside the first bucket, and a read error
    stalls the iterator without being reported.
  \<^item> \<open>TraceFile\<close>: the file helper of \<open>unnamed/part_000\<close> (\<open>extend\<close>,
    \<open>append\<close>, \<open>writeMarshalableAt\<close>, \<open>readUnmarshalableAt\<close>) over the
    bytes of the file, with \<open>os.File\<close>'s \<open>Truncate\<close>, \<open>WriteAt\<close> and
    \<open>ReadAt\<close>.  The invariant \<open>tf_inv\<close> says that the kept size is the
    file's length.  A marshaller and an unmarshaller are parameters, with the
    contract \<open>codec_ok\<close>.  The log-info codec of \<open>LogHeader\<close> meets
    it.  The lemmas give the round trips through the file, and show that
    writing past the end breaks the invariant.  \<open>tf_openFile\<close> is
    \<open>openFile\<close>, with the outcomes of \<open>OpenFile\<close>, \<open>Stat\<close> and
    \<open>NewBigCache\<close> and the two \<open>rand.Uint32\<close> draws as inputs.  A file
    opened without error satisfies \<open>tf_inv\<close>, its cache ID
    (\<open>cache_id\<close>, a \<open>64 word\<close>) gives back both random halves, and every
    error leaves the cache ID 0.
  \<^item> \<open>FileCopy\<close>: \<open>_File.copy\<close> and \<open>_File.reset\<close> of
    \<open>wal/file.go\<close> (\<open>unnamed/part_001\<close>).  The open file is its bytes and
    its read position (\<open>osfile\<close>).  The read loop \<open>copy_loop\<close> is a
    \<open>function\<close> whose measure is the number of bytes left to read, and it
    records the sizes of the buffers it allocates.  The lemmas show that a copy
    with a positive buffer size ends and copies the rest of the file from the
    read position, and that the buffer grows past \<open>bufferSize\<close> for files
    larger than twice that size.  \<open>wal_openFile\<close> and
    \<open>wal_fileSize\<close> are \<open>openFile\<close> and \<open>Size\<close>; the opened
    \<open>_File\<close> starts from the zero value, not from \<open>newSegments\<close>.
  \<^item> \<open>WalFileIO\<close>: \<open>readAt\<close>, \<open>writeMarshalableAt\<close> and
    \<open>readUnmarshalableAt\<close> of the WAL's \<open>_File\<close> on the bytes of the
    open file.  \<open>wal_file_io_agrees\<close> shows they compute what the tracedb
    helper computes on the same bytes, and the marshal round trip follows.
  \<^item> \<open>MmapFile\<close>: the memory-mapped \<open>OSFile\<close> of package \<open>fs\<close>, whose
    Go code is appended to \<open>docs/usage/advanced.md\<close> (lines 313--436):
    \<open>OpenFile\<close>, \<open>Slice\<close>, \<open>Close\<close> and \<open>Mmap\<close> over the file's
    bytes, the length of the region and whether it is still mapped; the
    outcomes of \<open>mmap\<close> and \<open>munmap\<close> are inputs.  The lemmas show that
    opening a non-empty file maps all of it, that \<open>Mmap\<close> keeps the
    invariant \<open>mm_inv\<close> and covers a file of up to twice the old region;
    and that it covers no more, so a file grown further is mapped short.  A
    failed remap leaves a stale region, \<open>Close\<close> hides a failed
    \<open>munmap\<close>, and \<open>Slice\<close> past the region panics instead of returning
    \<open>ErrIndexOutOfBound\<close>.
  \<^item> \<open>TraceMmap\<close>: \<open>extend\<close> and \<open>append\<close> of the tracedb file in
    full, composing \<open>TraceFile\<close> with the \<open>Mmap\<close> of \<open>MmapFile\<close>
    on a memory-mapped file.  Extending a mapped file to at most twice its
    region keeps the helper and the mapping in agreement (\<open>tfm_inv\<close>) with
    the whole file readable; extending it further returns no error and leaves
    the file mapped short.
  \<^item> \<open>WinLock\<close>: the lock file of \<open>fs/file_windows.go\<close> over the open
    handles and the files of the system, with the outcomes of
    \<open>CreateFile\<close> and \<open>LockFileEx\<close> as inputs.  Taking and releasing
    the lock restores the system, and a failed lock closes its handle; but a
    \<open>LockFileEx\<close> failure other than the two lock errors is reported as
    a lock taken.
  \<^item> This theory composes them.  A sequence of \<open>Put\<close>s into a fresh tiny batch,
    written by \<open>tinyWrite\<close> in any map order, framed by the writer, read back
    by \<open>Reader.Next\<close> and replayed by \<open>startRecover\<close>, recovers exactly the
    last value put for each key.

  \<^medskip>\<^bold>\<open>Conventions.\<close>
  \<^item> Every Go panic, error return and early return is a branch of the model:
    \<open>Panic\<close>, \<open>IOError\<close> or \<open>GoErr\<close>, in a sum or option type.
  \<^item> Go map iteration has no fixed order.  Loops over maps take the order as an
    argument.  The theorems hold for every order, or exhibit two orders with
    different results.
  \<^item> The wall clock and the outcome of operating-system calls are inputs.
  \<^item> Go integers keep their width, and sums that could wrap are read through
    \<open>sint\<close>/\<open>unat\<close> under explicit bounds.  The bounds in the theorems are
    what the code needs not to wrap: a record below \<open>2^32\<close> bytes, slab and
    file offsets below \<open>2^63\<close>.
  \<^item> All loops are structural recursion over a list or a count (among them
    \<open>foreach_window\<close> and \<open>tl_run\<close>), except
    \<open>release_loop\<close>, \<open>read_scan\<close>, \<open>fill_loop\<close>, \<open>doc_loop\<close> and
    \<open>copy_loop\<close> and \<open>scan_slots\<close>, which are \<open>function\<close>s with a measure.  No fuel is
    needed.  In \<open>FileCopy\<close> the byte counts are integers: they are bounded by
    the file's length, so the Go \<open>int64\<close> never wraps.

  \<^medskip>\<^bold>\<open>Not modelled, and why.\<close>
  \<^item> \<open>wal/wal.go\<close>, \<open>wal/writer.go\<close>, \<open>memdb/table.go\<close>, \<open>_TinyBatch\<close> and
    the memdb \<open>DB.Put\<close> are not in the sources.  The writer's frame layout
    (\<open>frame\<close>, \<open>group_body\<close>), the byte slab, the tiny batch and \<open>Put\<close>
    follow the specification.  The WAL itself is an abstract list of written
    groups and applied TimeIDs.
  \<^item> In \<open>Memdb\<close>, recovery hands each written group to one callback; the
    buffered scan that finds the groups is \<open>WalRead\<close>.  In \<open>WalRead\<close> the
    write-back of released headers is the list of released TimeIDs.
  \<^item> In \<open>db_internal.go\<close> the parts that call the trie, the time-window
    index, the block index, the lease and the batch pool (none of them in the
    sources) are not modelled; \<open>lookup\<close> takes the window lookup as an
    argument.
  \<^item> Not modelled: the batch pool and channels, the histogram and the metrics
    registry (not in the sources), the big cache of the file helper, and the
    sample program \<open>cmd/sample\<close>, a client of the public API
    (\<open>Open\<close>, \<open>PutEntry\<close>, \<open>Get\<close>, \<open>Batch\<close>), none of which is in
    the sources.  In \<open>fs\<close>, \<open>CreateLockFile\<close>, \<open>Stat\<close> and
    \<open>Remove\<close> only forward to the operating system.  The
    threads of \<open>TimeLock\<close> cover \<open>delete\<close> and the tiny-batch loop only;
    the other users of \<open>db.mu\<close> are sequential steps in \<open>Memdb\<close>.
  \<^item> Simplifications, none of which a property relies on:
    \<open>mdb_close\<close> sets the closed flag and leaves out the error of
    \<open>closer.Close()\<close> and the goroutine shutdown; \<open>kv_open\<close> starts
    from an empty table and leaves out the default size and the error of
    \<open>newTable\<close>; \<open>go_slice\<close> bounds a slice by its length where Go
    allows its capacity, which changes only panic paths; \<open>startExpirer\<close>
    reads the clock once per pass where \<open>isExpired\<close> reads it per record;
    the index file of \<open>DbIndex\<close> is extended with \<open>tf_extend\<close>, without
    the \<open>Mmap\<close> step that \<open>TraceMmap\<close> adds for a memory-mapped file;
    \<open>doc_loop\<close> starts after \<open>First()\<close>, which is not in the sources
    and is taken to be one \<open>Next\<close>.  \<open>mm_Slice\<close> returns the fault a
    caller's first read of a stale or past-the-file region raises, where Go's
    \<open>f.data[start:end]\<close> itself only checks the bounds.
\<close>

subsection \<open>From Put to recovery\<close>

text \<open>
  \<open>put_all\<close> applies the memdb \<open>Put\<close> to a list of key-value pairs in order,
  as a client writing into one tiny batch does; \<open>puts_size\<close> is the room their
  records take in the block.
\<close>

fun put_all :: "(u64 \<times> byte list) list \<Rightarrow> mdb \<Rightarrow> mdb" where
  "put_all [] db = db"
| "put_all ((k, v) # ps) db = put_all ps (snd (mdb_put k v db))"

definition puts_size :: "(u64 \<times> byte list) list \<Rightarrow> nat" where
  "puts_size ps = sum_list (map (\<lambda>(k, v). length v + 13) ps)"

lemma put_all_block:
  assumes "block_wf (cur_block db)" "\<forall>ik\<in>dom (b_records (cur_block db)). delFlag ik = 0"
    and "length (b_data (cur_block db)) + puts_size ps < 2^32"
  shows "block_wf (cur_block (put_all ps db))
    \<and> (\<forall>ik\<in>dom (b_records (cur_block (put_all ps db))). delFlag ik = 0)
    \<and> blk_view (cur_block (put_all ps db)) = fold (\<lambda>(k, v) m. m(k \<mapsto> v)) ps (blk_view (cur_block db))
    \<and> tb_ID (m_tinyBatch (put_all ps db)) = tb_ID (m_tinyBatch db)
    \<and> m_wal (put_all ps db) = m_wal db
    \<and> (ps \<noteq> [] \<longrightarrow> m_blockCache (put_all ps db) (tb_ID (m_tinyBatch db)) = Some (cur_block (put_all ps db)))"
  using assms
proof (induction ps arbitrary: db)
  case Nil
  then show ?case by simp
next
  case (Cons p ps)
  obtain k v where p: "p = (k, v)" by (cases p)
  let ?db1 = "snd (mdb_put k v db)" and ?b = "cur_block db"
  have l: "length v + 13 < 2^32" "length (b_data ?b) + length v + 13 < 2^63"
    using Cons.prems(3) by (simp_all add: p puts_size_def)
  note put = mdb_put_ok [OF l, of k]
  have c1: "cur_block ?db1 = snd (block_put (iKey False k) v ?b)"
    by (rule cur_block_mdb_put [OF l])
  have wf1: "block_wf (cur_block ?db1)"
    using block_put_wf [OF Cons.prems(1) _ l] c1 by (simp add: iKey_def)
  have fl1: "\<forall>ik\<in>dom (b_records (cur_block ?db1)). delFlag ik = 0"
    using Cons.prems(2) l c1 by (simp add: block_put_ok iKey_def)
  have sz1: "length (b_data (cur_block ?db1)) + puts_size ps < 2^32"
    using Cons.prems(3) l c1 by (simp add: block_put_ok p puts_size_def)
  have v1: "blk_view (cur_block ?db1) = (blk_view ?b)(k \<mapsto> v)"
    using blk_view_put [OF Cons.prems(1) l] c1 by simp
  note IH = Cons.IH [OF wf1 fl1 sz1]
  have some: "m_blockCache ?db1 (tb_ID (m_tinyBatch db)) = Some (cur_block ?db1)"
    using put c1 by simp
  have keep: "ps \<noteq> [] \<longrightarrow> m_blockCache (put_all ps ?db1) (tb_ID (m_tinyBatch db)) = Some (cur_block (put_all ps ?db1))"
    using IH put by simp
  have "ps = [] \<longrightarrow> m_blockCache (put_all ps ?db1) (tb_ID (m_tinyBatch db)) = Some (cur_block (put_all ps ?db1))"
    using some by simp
  then show ?case using IH keep v1 put p by auto
qed

text \<open>C1: Puts of key-value pairs into a fresh tiny batch, written to the WAL by tinyWrite in any Go map order, framed by the writer, read back by Reader.Next and replayed by startRecover, recover exactly the last value put for each key.\<close>

theorem put_write_recover:
  assumes fresh: "m_blockCache db (tb_ID (m_tinyBatch db)) = None" and wal: "m_wal db = []"
    and size: "puts_size ps < 2^32"
    and ks: "distinct ks" "set ks = dom (b_records (cur_block (put_all ps db)))"
  shows "map_sum id recover_wal (tinyWrite ks (m_tinyBatch db) (put_all ps db)) = Inr (map_of (rev ps))"
proof (cases "ps = []")
  case True
  then show ?thesis using fresh wal by (simp add: tinyWrite_def recover_wal_def snd_startRecover)
next
  case False
  let ?db = "put_all ps db" and ?t = "tb_ID (m_tinyBatch db)"
  let ?b = "cur_block ?db"
  have c0: "cur_block db = newBlock" using fresh by (simp add: cur_block_def)
  have pre: "block_wf (cur_block db)" "\<forall>ik\<in>dom (b_records (cur_block db)). delFlag ik = 0"
    "length (b_data (cur_block db)) + puts_size ps < 2^32"
    using size block_wf_newBlock by (simp_all add: c0, simp_all add: newBlock_def)
  note inv = put_all_block [OF pre]
  have wf: "block_wf ?b" and fl: "\<forall>ik\<in>set ks. delFlag ik = 0"
    and view: "blk_view ?b = map_of (rev ps)"
    and blk: "m_blockCache ?db (tb_ID (m_tinyBatch db)) = Some ?b"
    and wal': "m_wal ?db = []"
    using inv False ks(2) wal by (simp_all add: c0 fold_upd_map_of blk_view_newBlock)
  have nc: "no_conflict ks" using fl by (fastforce simp: no_conflict_iff iKey_def)
  have pay: "payload_of ?b ik = the (map_of (rev ps) (key ik))" if "ik \<in> set ks" for ik
  proof -
    have "ik = iKey False (key ik)" using fl that by (simp add: flag0_iKey)
    moreover have "b_records ?b ik \<noteq> None" using that ks(2) by auto
    ultimately show ?thesis using view [symmetric] by (auto simp: blk_view_def split: option.splits)
  qed
  have dk: "distinct (map key ks)"
    using ks(1) fl by (simp add: distinct_map inj_on_def)
  have sk: "set (map key ks) \<subseteq> fst ` set ps"
  proof
    fix k assume "k \<in> set (map key ks)"
    then obtain ik where ik: "ik \<in> set ks" "k = key ik" by auto
    then have "ik = iKey False k" using fl flag0_iKey by auto
    then have "map_of (rev ps) k \<noteq> None" using ik ks(2) view [symmetric] by (auto simp: blk_view_def)
    then show "k \<in> fst ` set ps" using map_of_eq_None_iff [of "rev ps" k] by simp
  qed
  have "length (group_body (map (entry_of ?b) ks)) = (\<Sum>ik\<leftarrow>ks. 13 + length (payload_of ?b ik))"
    by (induction ks) (simp_all add: group_body_def length_entry_of)
  also have "\<dots> = (\<Sum>k\<leftarrow>map key ks. 13 + length (the (map_of (rev ps) k)))"
    using pay by (simp add: comp_def cong: map_cong)
  also have "\<dots> \<le> (\<Sum>(k, v)\<leftarrow>ps. 13 + length v)"
    by (rule sum_last_le [OF dk sk])
  finally have len: "length (group_body (map (entry_of ?b) ks)) < 2^32"
    using size by (simp add: puts_size_def case_prod_beta add.commute)
  have "m_blockCache ?db (tb_ID (m_tinyBatch db)) = Some ?b" by (rule blk)
  note tr = tinyWrite_recover [OF wf this ks(1) ks(2) nc len]
  show ?thesis using tr wal' view by (simp add: recover_wal_def)
qed

theorem put_write_recover_witness:
  "m_blockCache demo_db (tb_ID (m_tinyBatch demo_db)) = None \<and> m_wal demo_db = []
   \<and> puts_size [(7, [1]), (8, [2, 3]), (7, [4])] < 2^32
   \<and> distinct [iKey False 8, iKey False 7]
   \<and> set [iKey False 8, iKey False 7] = dom (b_records (cur_block (put_all [(7, [1]), (8, [2, 3]), (7, [4])] demo_db)))
   \<and> map_sum id recover_wal (tinyWrite [iKey False 8, iKey False 7] (m_tinyBatch demo_db)
        (put_all [(7, [1]), (8, [2, 3]), (7, [4])] demo_db)) = Inr (map_of [(7, [4]), (8, [2, 3]), (7, [1])])"
proof -
  let ?ps = "[(7, [1]), (8, [2, 3]), (7, [4])] :: (u64 \<times> byte list) list"
  have h1: "m_blockCache demo_db (tb_ID (m_tinyBatch demo_db)) = None" "m_wal demo_db = []"
    by (simp_all add: demo_db_def)
  have h3: "puts_size ?ps < 2^32" by (simp add: puts_size_def)
  have h4: "distinct [iKey False 8, iKey False 7]" by (simp add: iKey_def)
  have c0: "cur_block demo_db = newBlock" by (simp add: demo_db_def cur_block_def)
  have h5: "set [iKey False 8, iKey False 7] = dom (b_records (cur_block (put_all ?ps demo_db)))"
    by (simp add: c0 cur_block_mdb_put block_put_ok newBlock_def insert_commute)
  show ?thesis using put_write_recover [OF h1 h3 h4 h5] h1 h3 h4 h5 by simp
qed

end
